theory Spec2Isabelle
  imports Complex_Main "HOL-Library.Word"
begin

section \<open>JavaScript strings and the built-ins the planner calls\<close>

text \<open>
  A JavaScript string is a sequence of 16-bit code units. ASCII literals of the source
  are written with \<open>js\<close>. The built-ins below follow ECMA-262 (\<open>trim\<close>,
  \<open>encodeURIComponent\<close>, \<open>decodeURIComponent\<close>, \<open>split\<close>, \<open>join\<close>) and the
  URL standard (\<open>URLSearchParams\<close>); an exception they raise is a value \<open>Inl e\<close>.
\<close>

type_synonym jschar = "16 word"
type_synonym jsstring = "jschar list"

datatype error = TypeError | URIError

definition js :: "string \<Rightarrow> jsstring" where
  "js s = map (\<lambda>c. of_nat (of_char c)) s"

definition bind :: "error + 'a \<Rightarrow> ('a \<Rightarrow> error + 'b) \<Rightarrow> error + 'b" where
  "bind m f = (case m of Inl e \<Rightarrow> Inl e | Inr x \<Rightarrow> f x)"

definition prepend :: "jsstring \<Rightarrow> error + jsstring \<Rightarrow> error + jsstring" where
  "prepend p r = (case r of Inl e \<Rightarrow> Inl e | Inr s \<Rightarrow> Inr (p @ s))"

text \<open>\<open>String.prototype.trim\<close>: strips WhiteSpace and LineTerminator code units at both ends.\<close>

definition isWhiteSpace :: "jschar \<Rightarrow> bool" where
  "isWhiteSpace c =
     (unat c \<in> {9, 10, 11, 12, 13, 32, 160, 5760, 8232, 8233, 8239, 8287, 12288, 65279}
      \<or> (8192 \<le> unat c \<and> unat c \<le> 8202))"

definition trim :: "jsstring \<Rightarrow> jsstring" where
  "trim s = rev (dropWhile isWhiteSpace (rev (dropWhile isWhiteSpace s)))"

text \<open>Truthiness of \<open>string | undefined\<close>: defined and not the empty string.\<close>

fun truthy :: "jsstring option \<Rightarrow> bool" where
  "truthy None = False"
| "truthy (Some s) = (s \<noteq> [])"

text \<open>\<open>Array.prototype.join\<close> on an array of strings.\<close>

fun join :: "jsstring \<Rightarrow> jsstring list \<Rightarrow> jsstring" where
  "join sep [] = []"
| "join sep [x] = x"
| "join sep (x # y # ys) = x @ sep @ join sep (y # ys)"

subsection \<open>UTF-8 and percent escapes\<close>

definition isHighSurrogate :: "jschar \<Rightarrow> bool" where
  "isHighSurrogate c = (55296 \<le> unat c \<and> unat c \<le> 56319)"

definition isLowSurrogate :: "jschar \<Rightarrow> bool" where
  "isLowSurrogate c = (56320 \<le> unat c \<and> unat c \<le> 57343)"

definition surrogatePair :: "jschar \<Rightarrow> jschar \<Rightarrow> nat" where
  "surrogatePair h l = 65536 + (unat h - 55296) * 1024 + (unat l - 56320)"

definition utf8Encode :: "nat \<Rightarrow> nat list" where
  "utf8Encode cp =
     (if cp < 128 then [cp]
      else if cp < 2048 then [192 + cp div 64, 128 + cp mod 64]
      else if cp < 65536 then
        [224 + cp div 4096, 128 + (cp div 64) mod 64, 128 + cp mod 64]
      else [240 + cp div 262144, 128 + (cp div 4096) mod 64,
            128 + (cp div 64) mod 64, 128 + cp mod 64])"

definition hexDigit :: "nat \<Rightarrow> jschar" where
  "hexDigit d = of_nat (if d < 10 then 48 + d else 55 + d)"

definition escapeOctet :: "nat \<Rightarrow> jsstring" where
  "escapeOctet b = [37, hexDigit (b div 16), hexDigit (b mod 16)]"

definition escapeOctets :: "nat list \<Rightarrow> jsstring" where
  "escapeOctets bs = concat (map escapeOctet bs)"

definition isAlnum :: "jschar \<Rightarrow> bool" where
  "isAlnum c = ((65 \<le> unat c \<and> unat c \<le> 90) \<or> (97 \<le> unat c \<and> unat c \<le> 122)
                \<or> (48 \<le> unat c \<and> unat c \<le> 57))"

text \<open>The characters \<open>encodeURIComponent\<close> leaves alone: letters, digits and \<open>-_.!~*'()\<close>.\<close>

definition uriUnreserved :: "jschar \<Rightarrow> bool" where
  "uriUnreserved c = (isAlnum c \<or> unat c \<in> {45, 95, 46, 33, 126, 42, 39, 40, 41})"

text \<open>
  \<open>encodeURIComponent\<close>: every other code point is written as the percent escapes of its
  UTF-8 octets; a surrogate code unit that is not part of a pair raises \<open>URIError\<close>.
\<close>

fun encodeURIComponent :: "jsstring \<Rightarrow> error + jsstring" where
  "encodeURIComponent [] = Inr []"
| "encodeURIComponent (c # s) =
     (if uriUnreserved c then prepend [c] (encodeURIComponent s)
      else if isLowSurrogate c then Inl URIError
      else if isHighSurrogate c then
        (case s of
           [] \<Rightarrow> Inl URIError
         | d # s' \<Rightarrow>
             if isLowSurrogate d
             then prepend (escapeOctets (utf8Encode (surrogatePair c d))) (encodeURIComponent s')
             else Inl URIError)
      else prepend (escapeOctets (utf8Encode (unat c))) (encodeURIComponent s))"

section \<open>The resource table\<close>

record ResourceMapEntry =
  slugs :: "jsstring list"
  "keywords" :: "jsstring list"

text \<open>
  \<open>RESOURCE_MAP\<close>, in the order of the source. The key is the run-time string: the
  callers pass \<open>filters.resourceType as any\<close>, so a key outside \<open>ResourceTypeKey\<close> can
  arrive.
\<close>

definition RESOURCE_TABLE :: "(jsstring \<times> ResourceMapEntry) list" where
  "RESOURCE_TABLE =
    [(js ''study_guide'',
       \<lparr>slugs = [js ''study guides'', js ''study-guides''],
        keywords = [js ''study guide'', js ''revision guide'', js ''exam guide'',
                    js ''study notes'']\<rparr>),
     (js ''textbook'',
       \<lparr>slugs = [js ''textbooks'', js ''text-book'', js ''text books''],
        keywords = [js ''textbook'', js ''coursebook'', js ''introduction to'',
                    js ''for students'']\<rparr>),
     (js ''lecture_notes'',
       \<lparr>slugs = [js ''lecture notes'', js ''lecture-notes''],
        keywords = [js ''lecture notes'', js ''class notes'', js ''course notes'',
                    js ''lecture'']\<rparr>),
     (js ''past_papers'',
       \<lparr>slugs = [js ''past papers'', js ''exam papers'', js ''previous year papers''],
        keywords = [js ''past papers'', js ''exam paper'', js ''question paper'',
                    js ''previous year paper'']\<rparr>),
     (js ''problem_sets'',
       \<lparr>slugs = [js ''problem sets'', js ''exercise problems''],
        keywords = [js ''problem set'', js ''exercise problems'', js ''worked problems'',
                    js ''practice problems'']\<rparr>),
     (js ''reference'',
       \<lparr>slugs = [js ''reference'', js ''handbooks'', js ''dictionaries'',
                 js ''encyclopedias''],
        keywords = [js ''reference'', js ''handbook'', js ''dictionary'',
                    js ''encyclopedia'']\<rparr>),
     (js ''open_textbook'',
       \<lparr>slugs = [js ''open textbooks'', js ''open-textbooks'',
                 js ''open educational resources''],
        keywords = [js ''open textbook'', js ''open educational resources'',
                    js ''open access textbook'']\<rparr>),
     (js ''case_studies'',
       \<lparr>slugs = [js ''case studies'', js ''case-studies''],
        keywords = [js ''case study'', js ''case studies'', js ''business case study'',
                    js ''clinical case'']\<rparr>)]"

definition RESOURCE_MAP :: "jsstring \<Rightarrow> ResourceMapEntry option" where
  "RESOURCE_MAP = map_of RESOURCE_TABLE"

section \<open>The query plan: \<open>buildQueryAttempts\<close>\<close>

datatype AttemptType = Subject | Keyword

record QueryAttempt =
  a_type :: AttemptType
  a_q :: jsstring
  a_description :: jsstring

text \<open>
  A JavaScript number: a finite value, \<open>NaN\<close> or an infinity. The finite doubles are among
  the reals; the code only compares numbers and takes \<open>Math.min\<close>, which is exact. The sign
  of zero is not kept.
\<close>

datatype number = Num real | NaN | PlusInfinity | MinusInfinity

text \<open>\<open>i < x\<close> for an array index \<open>i\<close>, \<open>n >= x\<close> for an array length \<open>n\<close>, and
  \<open>Math.min\<close>; a comparison with \<open>NaN\<close> is false and \<open>Math.min\<close> of a \<open>NaN\<close> is \<open>NaN\<close>.\<close>

fun indexBelow :: "nat \<Rightarrow> number \<Rightarrow> bool" where
  "indexBelow i (Num r) = (real i < r)"
| "indexBelow i NaN = False"
| "indexBelow i PlusInfinity = True"
| "indexBelow i MinusInfinity = False"

fun lengthReaches :: "nat \<Rightarrow> number \<Rightarrow> bool" where
  "lengthReaches n (Num r) = (r \<le> real n)"
| "lengthReaches n NaN = False"
| "lengthReaches n PlusInfinity = False"
| "lengthReaches n MinusInfinity = True"

fun mathMin :: "number \<Rightarrow> number \<Rightarrow> number" where
  "mathMin NaN y = NaN"
| "mathMin x NaN = NaN"
| "mathMin MinusInfinity y = MinusInfinity"
| "mathMin x MinusInfinity = MinusInfinity"
| "mathMin PlusInfinity y = y"
| "mathMin x PlusInfinity = x"
| "mathMin (Num a) (Num b) = Num (min a b)"

text \<open>
  \<open>SearchOptions\<close>: every field is optional. \<open>limit\<close>, \<open>minResults\<close> and \<open>maxAttempts\<close>
  are numbers; documents are of an arbitrary type \<open>'d\<close>, and the filter is a predicate that
  returns for every document.
\<close>

record 'd SearchOptions =
  subjectSlug :: "jsstring option"
  limit :: "number option"
  minResults :: "number option"
  maxAttempts :: "number option"
  clientSideFilter :: "('d \<Rightarrow> bool) option"

text \<open>The two objects pushed in the body of the loop over \<open>map.slugs\<close>.\<close>

definition combinedAttempt :: "jsstring \<Rightarrow> jsstring \<Rightarrow> error + QueryAttempt" where
  "combinedAttempt slug subject =
     bind (encodeURIComponent slug) (\<lambda>es.
     bind (encodeURIComponent subject) (\<lambda>esub.
       Inr \<lparr>a_type = Subject,
            a_q = js ''subject:'' @ es @ js ''+subject:'' @ esub,
            a_description = js ''subject:'' @ slug @ js '' AND subject:'' @ subject\<rparr>))"

definition slugAttempt :: "jsstring \<Rightarrow> error + QueryAttempt" where
  "slugAttempt slug =
     bind (encodeURIComponent slug) (\<lambda>es.
       Inr \<lparr>a_type = Subject,
            a_q = js ''subject:'' @ es,
            a_description = js ''subject:'' @ slug\<rparr>)"

text \<open>\<open>for (const slug of map.slugs)\<close>, pushing onto \<open>attempts\<close>.\<close>

fun slugLoop ::
  "jsstring option \<Rightarrow> jsstring list \<Rightarrow> QueryAttempt list \<Rightarrow> error + QueryAttempt list"
where
  "slugLoop subject [] attempts = Inr attempts"
| "slugLoop subject (slug # rest) attempts =
     bind (case subject of
             None \<Rightarrow> Inr attempts
           | Some s \<Rightarrow>
               if truthy subject
               then bind (combinedAttempt slug s) (\<lambda>a. Inr (attempts @ [a]))
               else Inr attempts)
       (\<lambda>attempts1.
     bind (slugAttempt slug) (\<lambda>a. slugLoop subject rest (attempts1 @ [a])))"

text \<open>The keyword fallbacks; the phrase quotes each keyword (code unit 34 is the double quote).\<close>

definition keywordPhrase :: "jsstring list \<Rightarrow> jsstring" where
  "keywordPhrase ks = join (js '' OR '') (map (\<lambda>k. [34] @ k @ [34]) ks)"

definition keywordAttempts ::
  "jsstring option \<Rightarrow> jsstring list \<Rightarrow> QueryAttempt list \<Rightarrow> error + QueryAttempt list"
where
  "keywordAttempts subject ks attempts =
     (case subject of
        None \<Rightarrow>
          bind (encodeURIComponent (keywordPhrase ks)) (\<lambda>e.
            Inr (attempts @
              [\<lparr>a_type = Keyword, a_q = e,
                a_description = js ''q: ('' @ join (js '' OR '') ks @ js '')''\<rparr>]))
      | Some s \<Rightarrow>
          if truthy subject then
            bind (encodeURIComponent (keywordPhrase ks @ js '' '' @ s)) (\<lambda>e1.
            bind (encodeURIComponent (keywordPhrase ks)) (\<lambda>e2.
              Inr (attempts @
                [\<lparr>a_type = Keyword, a_q = e1,
                  a_description = js ''q: ('' @ join (js '' OR '') ks @ js '') '' @ s\<rparr>,
                 \<lparr>a_type = Keyword, a_q = e2,
                  a_description = js ''q: ('' @ join (js '' OR '') ks @ js '')''\<rparr>])))
          else
            bind (encodeURIComponent (keywordPhrase ks)) (\<lambda>e.
              Inr (attempts @
                [\<lparr>a_type = Keyword, a_q = e,
                  a_description = js ''q: ('' @ join (js '' OR '') ks @ js '')''\<rparr>])))"

text \<open>
  \<open>buildQueryAttempts\<close>. A key with no entry makes \<open>map\<close> undefined, and reading
  \<open>map.slugs\<close> raises \<open>TypeError\<close>; so does iterating the undefined \<open>slugs\<close> of a
  property that the table object only inherits (\<open>constructor\<close>, \<open>toString\<close>).
\<close>

definition buildQueryAttempts :: "jsstring \<Rightarrow> 'd SearchOptions \<Rightarrow> error + QueryAttempt list" where
  "buildQueryAttempts resourceType opts =
     (case RESOURCE_MAP resourceType of
        None \<Rightarrow> Inl TypeError
      | Some m \<Rightarrow>
          (let subject = map_option trim (subjectSlug opts) in
           bind (slugLoop subject (slugs m) []) (\<lambda>attempts.
             keywordAttempts subject (keywords m) attempts)))"

section \<open>Built-ins of the retriever\<close>

subsection \<open>\<open>decodeURIComponent\<close>\<close>

definition hexValue :: "jschar \<Rightarrow> nat option" where
  "hexValue c =
     (if 48 \<le> unat c \<and> unat c \<le> 57 then Some (unat c - 48)
      else if 65 \<le> unat c \<and> unat c \<le> 70 then Some (unat c - 55)
      else if 97 \<le> unat c \<and> unat c \<le> 102 then Some (unat c - 87)
      else None)"

text \<open>One escape \<open>%XY\<close> at the head of the string: its octet and the rest.\<close>

fun parseHexOctet :: "jsstring \<Rightarrow> (nat \<times> jsstring) option" where
  "parseHexOctet (p # h1 # h2 # rest) =
     (if p = 37 then
        (case hexValue h1 of
           None \<Rightarrow> None
         | Some a \<Rightarrow> (case hexValue h2 of None \<Rightarrow> None | Some b \<Rightarrow> Some (a * 16 + b, rest)))
      else None)"
| "parseHexOctet _ = None"

fun readOctets :: "nat \<Rightarrow> jsstring \<Rightarrow> (nat list \<times> jsstring) option" where
  "readOctets 0 s = Some ([], s)"
| "readOctets (Suc n) s =
     (case parseHexOctet s of
        None \<Rightarrow> None
      | Some (b, s') \<Rightarrow>
          (case readOctets n s' of None \<Rightarrow> None | Some (bs, s'') \<Rightarrow> Some (b # bs, s'')))"

text \<open>The number of leading 1 bits of an octet (5 stands for five or more).\<close>

definition leadingOnes :: "nat \<Rightarrow> nat" where
  "leadingOnes b =
     (if b < 128 then 0 else if b < 192 then 1 else if b < 224 then 2
      else if b < 240 then 3 else if b < 248 then 4 else 5)"

definition isContinuation :: "nat \<Rightarrow> bool" where
  "isContinuation b = (128 \<le> b \<and> b < 192)"

text \<open>The code point of a well-formed multi-octet UTF-8 sequence: no overlong form, no
  surrogate, nothing above U+10FFFF.\<close>

fun utf8Decode :: "nat list \<Rightarrow> nat option" where
  "utf8Decode [b1, b2] =
     (if 192 \<le> b1 \<and> b1 < 224 \<and> isContinuation b2 then
        (let cp = (b1 - 192) * 64 + (b2 - 128) in if 128 \<le> cp then Some cp else None)
      else None)"
| "utf8Decode [b1, b2, b3] =
     (if 224 \<le> b1 \<and> b1 < 240 \<and> isContinuation b2 \<and> isContinuation b3 then
        (let cp = (b1 - 224) * 4096 + (b2 - 128) * 64 + (b3 - 128) in
         if 2048 \<le> cp \<and> \<not> (55296 \<le> cp \<and> cp \<le> 57343) then Some cp else None)
      else None)"
| "utf8Decode [b1, b2, b3, b4] =
     (if 240 \<le> b1 \<and> b1 < 248 \<and> isContinuation b2 \<and> isContinuation b3 \<and> isContinuation b4
      then
        (let cp = (b1 - 240) * 262144 + (b2 - 128) * 4096 + (b3 - 128) * 64 + (b4 - 128) in
         if 65536 \<le> cp \<and> cp \<le> 1114111 then Some cp else None)
      else None)"
| "utf8Decode _ = None"

definition utf16Encode :: "nat \<Rightarrow> jsstring" where
  "utf16Encode cp =
     (if cp < 65536 then [of_nat cp]
      else [of_nat (55296 + (cp - 65536) div 1024), of_nat (56320 + (cp - 65536) mod 1024)])"

function decodeURIComponent :: "jsstring \<Rightarrow> error + jsstring" where
  "decodeURIComponent [] = Inr []"
| "decodeURIComponent (c # s) =
     (if c \<noteq> 37 then prepend [c] (decodeURIComponent s)
      else
        (case parseHexOctet (c # s) of
           None \<Rightarrow> Inl URIError
         | Some (b, s1) \<Rightarrow>
             if leadingOnes b = 0 then prepend [of_nat b] (decodeURIComponent s1)
             else if leadingOnes b = 1 \<or> 4 < leadingOnes b then Inl URIError
             else
               (case readOctets (leadingOnes b - 1) s1 of
                  None \<Rightarrow> Inl URIError
                | Some (bs, s2) \<Rightarrow>
                    (case utf8Decode (b # bs) of
                       None \<Rightarrow> Inl URIError
                     | Some cp \<Rightarrow> prepend (utf16Encode cp) (decodeURIComponent s2)))))"
  by pat_completeness auto
termination
proof -
  have parse: "length s' < length s" if "parseHexOctet s = Some (b, s')" for s b s'
    using that by (induction s rule: parseHexOctet.induct) (auto split: if_splits option.splits)
  have read: "length s' \<le> length s" if "readOctets n s = Some (bs, s')" for n s bs s'
    using that
  proof (induction n arbitrary: s bs)
    case 0
    then show ?case by simp
  next
    case (Suc n)
    then show ?case
      by (fastforce split: option.splits dest: parse)
  qed
  show ?thesis
  proof (relation "measure length")
    show "wf (measure length)" by simp
  next
    fix c :: jschar and s
    show "(s, c # s) \<in> measure length" by simp
  next
    fix c :: jschar and s x2 b s1
    assume "parseHexOctet (c # s) = Some x2" "(b, s1) = x2"
    then have "length s1 < length (c # s)"
      using parse[of "c # s" b s1] by simp
    then show "(s1, c # s) \<in> measure length" by simp
  next
    fix c :: jschar and s x2 b s1 x2a bs s2 cp
    assume "parseHexOctet (c # s) = Some x2" "(b, s1) = x2"
      "readOctets (leadingOnes b - 1) s1 = Some x2a" "(bs, s2) = x2a"
    then have "length s1 < length (c # s)" "length s2 \<le> length s1"
      using parse[of "c # s" b s1] read[of "leadingOnes b - 1" s1 bs s2]
      by simp_all
    then show "(s2, c # s) \<in> measure length" by simp
  qed
qed

subsection \<open>\<open>split\<close>, \<open>replace\<close>, \<open>String\<close>\<close>

text \<open>\<open>s.split(sep)\<close> for a one-character separator: never the empty array.\<close>

fun split :: "jschar \<Rightarrow> jsstring \<Rightarrow> jsstring list" where
  "split sep [] = [[]]"
| "split sep (c # s) =
     (if c = sep then [] # split sep s
      else (case split sep s of [] \<Rightarrow> [[c]] | p # ps \<Rightarrow> (c # p) # ps))"

text \<open>\<open>p.replace(/^pre/, "")\<close> for a literal \<open>pre\<close>.\<close>

definition removePrefix :: "jsstring \<Rightarrow> jsstring \<Rightarrow> jsstring" where
  "removePrefix pre p = (if take (length pre) p = pre then drop (length pre) p else p)"

text \<open>
  \<open>String(x)\<close>. An integer of absolute value below \<open>2^53\<close> is printed in plain decimal
  digits, and \<open>NaN\<close> and the infinities by their names. The digits of any other finite
  number (a fraction, an exponent form) are those of the nearest double and are not
  computed here: they are given by the parameter \<open>fmt\<close>, about which nothing is assumed.
\<close>

function decimal :: "nat \<Rightarrow> jsstring" where
  "decimal n =
     (if n < 10 then [of_nat (48 + n)] else decimal (n div 10) @ [of_nat (48 + n mod 10)])"
  by pat_completeness auto
termination
  by (relation "measure id") auto

declare decimal.simps [simp del]

definition numberToString :: "(real \<Rightarrow> jsstring) \<Rightarrow> number \<Rightarrow> jsstring" where
  "numberToString fmt x =
     (case x of
        Num r \<Rightarrow>
          if of_int \<lfloor>r\<rfloor> = r \<and> \<bar>r\<bar> < 9007199254740992 then
            (if r < 0 then 45 # decimal (nat \<lfloor>- r\<rfloor>) else decimal (nat \<lfloor>r\<rfloor>))
          else fmt r
      | NaN \<Rightarrow> js ''NaN''
      | PlusInfinity \<Rightarrow> js ''Infinity''
      | MinusInfinity \<Rightarrow> js ''-Infinity'')"

subsection \<open>\<open>URLSearchParams\<close>\<close>

text \<open>
  The object is its list of name-value pairs. \<open>toString\<close> is the
  application/x-www-form-urlencoded serializer: the UTF-8 octets of a string, a space
  written \<open>+\<close>, letters, digits and \<open>*-._\<close> kept, every other octet escaped; an unpaired
  surrogate becomes U+FFFD.
\<close>

type_synonym URLSearchParams = "(jsstring \<times> jsstring) list"

definition appendParam :: "URLSearchParams \<Rightarrow> jsstring \<Rightarrow> jsstring \<Rightarrow> URLSearchParams" where
  "appendParam ps name v = ps @ [(name, v)]"

fun setParam :: "URLSearchParams \<Rightarrow> jsstring \<Rightarrow> jsstring \<Rightarrow> URLSearchParams" where
  "setParam [] name v = [(name, v)]"
| "setParam ((k, x) # ps) name v =
     (if k = name then (k, v) # filter (\<lambda>kv. fst kv \<noteq> name) ps
      else (k, x) # setParam ps name v)"

fun codePoints :: "jsstring \<Rightarrow> nat list" where
  "codePoints [] = []"
| "codePoints (c # s) =
     (if isLowSurrogate c then 65533 # codePoints s
      else if isHighSurrogate c then
        (case s of
           [] \<Rightarrow> [65533]
         | d # s' \<Rightarrow>
             if isLowSurrogate d then surrogatePair c d # codePoints s'
             else 65533 # codePoints s)
      else unat c # codePoints s)"

definition formOctet :: "nat \<Rightarrow> jsstring" where
  "formOctet b =
     (if b = 32 then [43]
      else if isAlnum (of_nat b) \<or> b \<in> {42, 45, 46, 95} then [of_nat b]
      else escapeOctet b)"

definition formEncode :: "jsstring \<Rightarrow> jsstring" where
  "formEncode s = concat (map formOctet (concat (map utf8Encode (codePoints s))))"

definition paramsToString :: "URLSearchParams \<Rightarrow> jsstring" where
  "paramsToString ps = join [38] (map (\<lambda>kv. formEncode (fst kv) @ [61] @ formEncode (snd kv)) ps)"

section \<open>The retriever: \<open>runSmartSearch\<close>\<close>

text \<open>The URL of one attempt: the first block of the loop body. \<open>decodeURIComponent\<close> is
  called outside the \<open>try\<close>, so its \<open>URIError\<close> would leave the function.\<close>

definition requestUrl ::
  "(real \<Rightarrow> jsstring) \<Rightarrow> number \<Rightarrow> QueryAttempt \<Rightarrow> error + jsstring"
where
  "requestUrl fmt lmt a =
     (case a_type a of
        Subject \<Rightarrow>
          bind (decodeURIComponent (a_q a)) (\<lambda>d.
            (let parts = map (removePrefix (js ''subject:'')) (split 43 d);
                 params = foldl (\<lambda>ps p. appendParam ps (js ''subject'') p) [] parts;
                 params = setParam params (js ''limit'') (numberToString fmt lmt)
             in Inr (js ''https://openlibrary.org/search.json?'' @ paramsToString params)))
      | Keyword \<Rightarrow>
          bind (decodeURIComponent (a_q a)) (\<lambda>d.
            (let params = setParam [] (js ''q'') d;
                 params = setParam params (js ''limit'') (numberToString fmt lmt)
             in Inr (js ''https://openlibrary.org/search.json?'' @ paramsToString params))))"

text \<open>
  What \<open>fetch\<close> can give: a rejected promise (network failure), or a response with its
  \<open>ok\<close> flag and its body; \<open>res.json()\<close> rejects on a body that is not JSON (\<open>None\<close>),
  gives \<open>null\<close>, or gives a value whose \<open>docs\<close> is an array or not.
\<close>

datatype 'd Json = JsonNull | JsonValue "'d list option"

datatype 'd FetchResult = Rejected | Response bool "'d Json option"

text \<open>
  The effects of one invocation, in order. The network answers the n-th request of the
  invocation (counted from 0) for a URL; nothing else of the outside world is read:
  \<open>fetch(url)\<close> is called with no \<open>signal\<close>, and \<open>SearchOptions\<close> has none to pass.
\<close>

datatype event = Fetch jsstring | Sleep nat

type_synonym 'd Network = "nat \<Rightarrow> jsstring \<Rightarrow> 'd FetchResult"

fun requests :: "event list \<Rightarrow> jsstring list" where
  "requests [] = []"
| "requests (Fetch u # es) = u # requests es"
| "requests (Sleep ms # es) = requests es"

definition fetch :: "'d Network \<Rightarrow> jsstring \<Rightarrow> event list \<Rightarrow> 'd FetchResult \<times> event list" where
  "fetch net u tr = (net (length (requests tr)) u, tr @ [Fetch u])"

text \<open>
  The body of the \<open>try\<close> up to \<open>lastResults = docs\<close>: \<open>None\<close> when control reaches
  \<open>lastResults = []; continue\<close> (response not ok, or an exception caught), else the filtered
  documents.
\<close>

definition tryDocs :: "('d \<Rightarrow> bool) option \<Rightarrow> 'd FetchResult \<Rightarrow> 'd list option" where
  "tryDocs flt r =
     (case r of
        Rejected \<Rightarrow> None
      | Response ok body \<Rightarrow>
          if \<not> ok then None
          else
            (case body of
               None \<Rightarrow> None
             | Some JsonNull \<Rightarrow> None
             | Some (JsonValue d) \<Rightarrow>
                 (let docs = (case d of None \<Rightarrow> [] | Some ds \<Rightarrow> ds) in
                  Some (case flt of None \<Rightarrow> docs | Some f \<Rightarrow> filter f docs))))"

record 'd SearchOutcome =
  docs :: "'d list"
  attempt :: number
  description :: jsstring
  url :: "jsstring option"

text \<open>The \<open>for\<close> loop with its state (\<open>i\<close>, \<open>lastResults\<close>) and the fallback return after it.
  Reading \<open>attempts[i]\<close> past the end gives undefined, whose \<open>.type\<close> raises.\<close>

function searchLoop ::
  "(real \<Rightarrow> jsstring) \<Rightarrow> 'd Network \<Rightarrow> ('d \<Rightarrow> bool) option \<Rightarrow> QueryAttempt list \<Rightarrow>
   number \<Rightarrow> number \<Rightarrow> number \<Rightarrow> nat \<Rightarrow> 'd list \<Rightarrow> event list \<Rightarrow>
   (error + 'd SearchOutcome) \<times> event list"
where
  "searchLoop fmt net flt attempts lmt minRes maxAtt i lastResults tr =
     (if indexBelow i maxAtt then
        (if length attempts \<le> i then (Inl TypeError, tr)
         else
           (case requestUrl fmt lmt (attempts ! i) of
              Inl e \<Rightarrow> (Inl e, tr)
            | Inr u \<Rightarrow>
                (case fetch net u tr of
                   (res, tr1) \<Rightarrow>
                     (case tryDocs flt res of
                        None \<Rightarrow>
                          searchLoop fmt net flt attempts lmt minRes maxAtt (Suc i) [] tr1
                      | Some ds \<Rightarrow>
                          if lengthReaches (length ds) minRes then
                            (Inr \<lparr>docs = ds, attempt = Num (real i + 1),
                                  description = a_description (attempts ! i),
                                  url = Some u\<rparr>, tr1)
                          else searchLoop fmt net flt attempts lmt minRes maxAtt (Suc i) ds
                                 (tr1 @ [Sleep (120 + i * 30)])))))
      else (Inr \<lparr>docs = lastResults, attempt = maxAtt, description = js ''fallback'',
                 url = None\<rparr>, tr))"
  by pat_completeness auto
termination
  by (relation "measure (\<lambda>(fmt, net, flt, attempts, lmt, minRes, maxAtt, i, lastResults, tr).
        length attempts - i)") auto

declare searchLoop.simps [simp del]

definition runSmartSearch ::
  "(real \<Rightarrow> jsstring) \<Rightarrow> 'd Network \<Rightarrow> jsstring \<Rightarrow> 'd SearchOptions \<Rightarrow>
   (error + 'd SearchOutcome) \<times> event list"
where
  "runSmartSearch fmt net resourceType opts =
     (case buildQueryAttempts resourceType opts of
        Inl e \<Rightarrow> (Inl e, [])
      | Inr attempts \<Rightarrow>
          (let lmt = (case limit opts of None \<Rightarrow> Num 20 | Some l \<Rightarrow> l);
               minRes = (case minResults opts of None \<Rightarrow> Num 6 | Some m \<Rightarrow> m);
               maxAtt = mathMin (case maxAttempts opts of
                                   None \<Rightarrow> Num (real (length attempts))
                                 | Some m \<Rightarrow> m)
                                (Num (real (length attempts)))
           in searchLoop fmt net (clientSideFilter opts) attempts lmt minRes maxAtt 0 [] []))"

section \<open>Vocabulary of the statements\<close>

text \<open>\<open>String.prototype.isWellFormed\<close>: no surrogate code unit outside a pair.\<close>

fun isWellFormed :: "jsstring \<Rightarrow> bool" where
  "isWellFormed [] = True"
| "isWellFormed (c # s) =
     (if isLowSurrogate c then False
      else if isHighSurrogate c then
        (case s of [] \<Rightarrow> False | d # s' \<Rightarrow> isLowSurrogate d \<and> isWellFormed s')
      else isWellFormed s)"

text \<open>No surrogate code unit at all; every ASCII literal is such a string.\<close>

definition noSurrogate :: "jsstring \<Rightarrow> bool" where
  "noSurrogate s = (\<forall>c\<in>set s. unat c < 55296)"

text \<open>The attempts one slug contributes.\<close>

definition slugBlock :: "jsstring option \<Rightarrow> jsstring \<Rightarrow> QueryAttempt list \<Rightarrow> bool" where
  "slugBlock subject slug b =
     (case subject of
        None \<Rightarrow> (\<exists>a. b = [a] \<and> slugAttempt slug = Inr a)
      | Some s \<Rightarrow>
          if s \<noteq> [] then
            (\<exists>c a. b = [c, a] \<and> combinedAttempt slug s = Inr c \<and> slugAttempt slug = Inr a)
          else (\<exists>a. b = [a] \<and> slugAttempt slug = Inr a))"

text \<open>The keyword attempts pushed last.\<close>

definition keywordTail :: "jsstring option \<Rightarrow> jsstring list \<Rightarrow> QueryAttempt list \<Rightarrow> bool" where
  "keywordTail subject ks t =
     (case subject of
        None \<Rightarrow> (\<exists>a. t = [a] \<and> a_type a = Keyword
                    \<and> encodeURIComponent (keywordPhrase ks) = Inr (a_q a))
      | Some s \<Rightarrow>
          if s \<noteq> [] then
            (\<exists>c a. t = [c, a] \<and> a_type c = Keyword \<and> a_type a = Keyword
               \<and> encodeURIComponent (keywordPhrase ks @ js '' '' @ s) = Inr (a_q c)
               \<and> encodeURIComponent (keywordPhrase ks) = Inr (a_q a))
          else (\<exists>a. t = [a] \<and> a_type a = Keyword
                  \<and> encodeURIComponent (keywordPhrase ks) = Inr (a_q a)))"

text \<open>The trimmed subject of the options has no unpaired surrogate.\<close>

definition wellFormedSubject :: "'d SearchOptions \<Rightarrow> bool" where
  "wellFormedSubject opts =
     (case map_option trim (subjectSlug opts) of None \<Rightarrow> True | Some s \<Rightarrow> isWellFormed s)"

text \<open>The query string of an attempt decodes without an error.\<close>

definition decodable :: "QueryAttempt \<Rightarrow> bool" where
  "decodable a = (\<exists>d. decodeURIComponent (a_q a) = Inr d)"

subsection \<open>A run of the retriever\<close>

text \<open>The local constants \<open>limit\<close>, \<open>minResults\<close> and \<open>maxAttempts\<close> of \<open>runSmartSearch\<close>.\<close>

definition limitOf :: "'d SearchOptions \<Rightarrow> number" where
  "limitOf opts = (case limit opts of None \<Rightarrow> Num 20 | Some l \<Rightarrow> l)"

definition minResultsOf :: "'d SearchOptions \<Rightarrow> number" where
  "minResultsOf opts = (case minResults opts of None \<Rightarrow> Num 6 | Some m \<Rightarrow> m)"

definition maxAttemptsOf :: "'d SearchOptions \<Rightarrow> QueryAttempt list \<Rightarrow> number" where
  "maxAttemptsOf opts attempts =
     mathMin (case maxAttempts opts of None \<Rightarrow> Num (real (length attempts)) | Some m \<Rightarrow> m)
             (Num (real (length attempts)))"

text \<open>The number of indices of a plan of length \<open>len\<close> that pass the loop test \<open>i < x\<close>:
  the number of attempts the loop executes when none is accepted.\<close>

definition attemptsRun :: "number \<Rightarrow> nat \<Rightarrow> nat" where
  "attemptsRun x len = length (filter (\<lambda>i. indexBelow i x) [0..<len])"

text \<open>The URL of attempt \<open>j\<close> (counted from 0), and what the \<open>try\<close> block makes of the
  answer to it when it is the \<open>j\<close>-th request: the filtered documents, or \<open>None\<close> for a failure.\<close>

definition attemptUrl ::
  "(real \<Rightarrow> jsstring) \<Rightarrow> number \<Rightarrow> QueryAttempt list \<Rightarrow> nat \<Rightarrow> jsstring"
where
  "attemptUrl fmt lmt attempts j =
     (case requestUrl fmt lmt (attempts ! j) of Inl e \<Rightarrow> [] | Inr u \<Rightarrow> u)"

definition attemptDocs ::
  "(real \<Rightarrow> jsstring) \<Rightarrow> 'd Network \<Rightarrow> ('d \<Rightarrow> bool) option \<Rightarrow> number \<Rightarrow>
   QueryAttempt list \<Rightarrow> nat \<Rightarrow> 'd list option"
where
  "attemptDocs fmt net flt lmt attempts j = tryDocs flt (net j (attemptUrl fmt lmt attempts j))"

text \<open>The test \<open>docs.length >= minResults\<close>, which only a response that gave documents reaches.\<close>

definition acceptable :: "number \<Rightarrow> 'd list option \<Rightarrow> bool" where
  "acceptable minRes r =
     (case r of None \<Rightarrow> False | Some ds \<Rightarrow> lengthReaches (length ds) minRes)"

definition lastSeen :: "'d list option \<Rightarrow> 'd list" where
  "lastSeen r = (case r of None \<Rightarrow> [] | Some ds \<Rightarrow> ds)"

text \<open>A failed request: the promise rejected, a status that is not ok, or a body that
  does not parse.\<close>

definition failedResponse :: "'d FetchResult \<Rightarrow> bool" where
  "failedResponse r = (case r of Rejected \<Rightarrow> True | Response ok body \<Rightarrow> \<not> ok \<or> body = None)"

subsection \<open>Example inputs\<close>

definition noOptions :: "nat SearchOptions" where
  "noOptions = \<lparr>subjectSlug = None, limit = None, minResults = None, maxAttempts = None,
                 clientSideFilter = None\<rparr>"

definition studyGuide :: ResourceMapEntry where
  "studyGuide =
     \<lparr>slugs = [js ''study guides'', js ''study-guides''],
      keywords = [js ''study guide'', js ''revision guide'', js ''exam guide'',
                  js ''study notes'']\<rparr>"

definition studyGuideSciencePlan :: "QueryAttempt list" where
  "studyGuideSciencePlan =
    [\<lparr>a_type = Subject, a_q = js ''subject:study%20guides+subject:science'',
      a_description = js ''subject:study guides AND subject:science''\<rparr>,
     \<lparr>a_type = Subject, a_q = js ''subject:study%20guides'',
      a_description = js ''subject:study guides''\<rparr>,
     \<lparr>a_type = Subject, a_q = js ''subject:study-guides+subject:science'',
      a_description = js ''subject:study-guides AND subject:science''\<rparr>,
     \<lparr>a_type = Subject, a_q = js ''subject:study-guides'',
      a_description = js ''subject:study-guides''\<rparr>,
     \<lparr>a_type = Keyword,
      a_q = js (''%22study%20guide%22%20OR%20%22revision%20guide%22%20OR%20'' @
                ''%22exam%20guide%22%20OR%20%22study%20notes%22%20science''),
      a_description =
        js ''q: (study guide OR revision guide OR exam guide OR study notes) science''\<rparr>,
     \<lparr>a_type = Keyword,
      a_q = js (''%22study%20guide%22%20OR%20%22revision%20guide%22%20OR%20'' @
                ''%22exam%20guide%22%20OR%20%22study%20notes%22''),
      a_description =
        js ''q: (study guide OR revision guide OR exam guide OR study notes)''\<rparr>]"

definition scienceOptions :: "nat SearchOptions" where
  "scienceOptions = noOptions\<lparr>subjectSlug := Some (js '' science '')\<rparr>"

text \<open>Documents are numbers here; a positive one stands for a document with the
  full-text flag, and the filter keeps those.\<close>

definition fullTextOptions :: "nat SearchOptions" where
  "fullTextOptions = scienceOptions\<lparr>clientSideFilter := Some (\<lambda>d. 0 < d)\<rparr>"

text \<open>The first request is answered with 8 documents, 4 of them flagged; every later one
  with 10 flagged documents.\<close>

definition fullTextNetwork :: "nat Network" where
  "fullTextNetwork n u =
     (if n = 0 then Response True (Some (JsonValue (Some [1, 0, 1, 0, 1, 0, 1, 0])))
      else Response True (Some (JsonValue (Some [1, 1, 1, 1, 1, 1, 1, 1, 1, 1]))))"


definition emptyNetwork :: "nat Network" where
  "emptyNetwork n u = Response True (Some (JsonValue (Some [])))"

definition rejectingNetwork :: "nat Network" where
  "rejectingNetwork n u = Rejected"


definition fractionalOptions :: "nat SearchOptions" where
  "fractionalOptions = scienceOptions\<lparr>maxAttempts := Some (Num (5 / 2))\<rparr>"

text \<open>A rendering of the numbers that \<open>numberToString\<close> does not print itself; the examples
  have the limit 20 and never use it.\<close>

definition noFormat :: "real \<Rightarrow> jsstring" where
  "noFormat r = []"

text \<open>A subject with plus signs, and a single attempt allowed.\<close>

definition plusOptions :: "nat SearchOptions" where
  "plusOptions = noOptions\<lparr>subjectSlug := Some (js ''c++''), maxAttempts := Some (Num 1)\<rparr>"

definition plusAttempt :: QueryAttempt where
  "plusAttempt =
     \<lparr>a_type = Subject, a_q = js ''subject:study%20guides+subject:c%2B%2B'',
      a_description = js ''subject:study guides AND subject:c++''\<rparr>"

definition plusPlan :: "QueryAttempt list" where
  "plusPlan =
    [plusAttempt,
     \<lparr>a_type = Subject, a_q = js ''subject:study%20guides'',
      a_description = js ''subject:study guides''\<rparr>,
     \<lparr>a_type = Subject, a_q = js ''subject:study-guides+subject:c%2B%2B'',
      a_description = js ''subject:study-guides AND subject:c++''\<rparr>,
     \<lparr>a_type = Subject, a_q = js ''subject:study-guides'',
      a_description = js ''subject:study-guides''\<rparr>,
     \<lparr>a_type = Keyword,
      a_q = js (''%22study%20guide%22%20OR%20%22revision%20guide%22%20OR%20'' @
                ''%22exam%20guide%22%20OR%20%22study%20notes%22%20c%2B%2B''),
      a_description =
        js ''q: (study guide OR revision guide OR exam guide OR study notes) c++''\<rparr>,
     \<lparr>a_type = Keyword,
      a_q = js (''%22study%20guide%22%20OR%20%22revision%20guide%22%20OR%20'' @
                ''%22exam%20guide%22%20OR%20%22study%20notes%22''),
      a_description =
        js ''q: (study guide OR revision guide OR exam guide OR study notes)''\<rparr>]"

section \<open>Basic facts\<close>

lemma bind_Inr_iff: "bind m f = Inr r \<longleftrightarrow> (\<exists>x. m = Inr x \<and> f x = Inr r)"
  by (cases m) (simp_all add: bind_def)

lemma bind_Inr [simp]: "bind (Inr x) f = f x"
  by (simp add: bind_def)

lemma bind_Inl [simp]: "bind (Inl e) f = Inl e"
  by (simp add: bind_def)

lemma prepend_Inr [simp]: "prepend p (Inr s) = Inr (p @ s)"
  by (simp add: prepend_def)

lemma prepend_Inl [simp]: "prepend p (Inl e) = Inl e"
  by (simp add: prepend_def)

lemma prepend_Inr_iff: "prepend p r = Inr t \<longleftrightarrow> (\<exists>s. r = Inr s \<and> t = p @ s)"
  by (cases r) auto

lemma unreserved_not_surrogate:
  "uriUnreserved c \<Longrightarrow> \<not> isLowSurrogate c \<and> \<not> isHighSurrogate c"
  by (auto simp: uriUnreserved_def isAlnum_def isLowSurrogate_def isHighSurrogate_def)

lemma high_not_low: "isHighSurrogate c \<Longrightarrow> \<not> isLowSurrogate c"
  by (simp add: isLowSurrogate_def isHighSurrogate_def)

lemma encode_error: "encodeURIComponent s = Inl e \<Longrightarrow> e = URIError"
  by (induction s rule: encodeURIComponent.induct)
     (auto simp: prepend_def split: if_splits list.splits sum.splits)

lemma encode_wellFormed: "(\<exists>e. encodeURIComponent s = Inr e) \<longleftrightarrow> isWellFormed s"
proof (induction s rule: encodeURIComponent.induct)
  case 1
  then show ?case by simp
next
  case (2 c s)
  show ?case
  proof (cases "uriUnreserved c")
    case True
    with 2 unreserved_not_surrogate[OF True] show ?thesis
      by (simp add: prepend_Inr_iff)
  next
    case nu: False
    show ?thesis
    proof (cases "isLowSurrogate c")
      case True
      with nu show ?thesis by simp
    next
      case nl: False
      show ?thesis
      proof (cases "isHighSurrogate c")
        case True
        with nu nl 2(2) show ?thesis
          by (cases s) (simp_all add: prepend_Inr_iff)
      next
        case False
        with nu nl 2(3) show ?thesis by (simp add: prepend_Inr_iff)
      qed
    qed
  qed
qed

lemma encode_ill_formed: "encodeURIComponent s = Inl URIError \<longleftrightarrow> \<not> isWellFormed s"
proof -
  have "(\<exists>e. encodeURIComponent s = Inr e) \<or> encodeURIComponent s = Inl URIError"
    using encode_error[of s] by (cases "encodeURIComponent s") auto
  then show ?thesis using encode_wellFormed[of s] by auto
qed

lemma noSurrogate_js: "noSurrogate (js t)"
proof -
  have "unat (of_nat (of_char c) :: jschar) < 55296" for c :: char
  proof -
    have lt: "(of_char c :: nat) < 256" by (rule nat_of_char_less_256)
    then have "(of_char c :: nat) mod 65536 = of_char c" by (intro mod_less) linarith
    moreover from lt have "(of_char c :: nat) < 55296" by linarith
    ultimately show ?thesis by (simp add: unat_of_nat)
  qed
  then show ?thesis by (auto simp: noSurrogate_def js_def)
qed

lemma wellFormed_append: "noSurrogate p \<Longrightarrow> isWellFormed (p @ s) = isWellFormed s"
  by (induction p) (auto simp: noSurrogate_def isLowSurrogate_def isHighSurrogate_def)

lemma noSurrogate_append [simp]: "noSurrogate (a @ b) \<longleftrightarrow> noSurrogate a \<and> noSurrogate b"
  by (auto simp: noSurrogate_def)

lemma noSurrogate_wellFormed: "noSurrogate p \<Longrightarrow> isWellFormed p"
  using wellFormed_append[of p "[]"] by simp

lemma noSurrogate_Nil [simp]: "noSurrogate []"
  by (simp add: noSurrogate_def)

lemma noSurrogate_join:
  "noSurrogate sep \<Longrightarrow> \<forall>x\<in>set xs. noSurrogate x \<Longrightarrow> noSurrogate (join sep xs)"
  by (induction sep xs rule: join.induct) auto

lemma noSurrogate_keywordPhrase:
  "\<forall>k\<in>set ks. noSurrogate k \<Longrightarrow> noSurrogate (keywordPhrase ks)"
  unfolding keywordPhrase_def
  by (rule noSurrogate_join) (auto simp: noSurrogate_js, auto simp: noSurrogate_def)

lemma table_entries:
  assumes "RESOURCE_MAP rt = Some m"
  shows "(\<forall>x\<in>set (slugs m). noSurrogate x) \<and> (\<forall>x\<in>set (keywords m). noSurrogate x)
         \<and> slugs m \<noteq> [] \<and> keywords m \<noteq> []"
proof -
  have "(rt, m) \<in> set RESOURCE_TABLE"
    using assms unfolding RESOURCE_MAP_def by (rule map_of_SomeD)
  then show ?thesis
    unfolding RESOURCE_TABLE_def by (auto simp: noSurrogate_js)
qed

section \<open>The plan\<close>

lemma trim_blank:
  assumes "\<forall>c\<in>set s. isWhiteSpace c"
  shows "trim s = []"
proof -
  from assms have blank: "dropWhile isWhiteSpace s = []"
    by (simp add: dropWhile_eq_Nil_conv)
  show ?thesis unfolding trim_def blank by simp
qed

lemma slugLoop_empty_subject: "slugLoop (Some []) sl acc = slugLoop None sl acc"
  by (induction sl arbitrary: acc) simp_all

lemma keywordAttempts_empty_subject: "keywordAttempts (Some []) ks = keywordAttempts None ks"
  by (rule ext) (simp add: keywordAttempts_def)

lemma slugLoop_blocks:
  "slugLoop subject sl acc = Inr r \<Longrightarrow>
     \<exists>bs. r = acc @ concat bs \<and> list_all2 (slugBlock subject) sl bs"
proof (induction sl arbitrary: acc r)
  case Nil
  then show ?case by simp
next
  case (Cons slug rest)
  show ?case
  proof (cases "truthy subject")
    case True
    then obtain s where s: "subject = Some s" "s \<noteq> []" by (cases subject) auto
    from Cons.prems s obtain c a where
      c: "combinedAttempt slug s = Inr c" and a: "slugAttempt slug = Inr a"
      and r: "slugLoop subject rest ((acc @ [c]) @ [a]) = Inr r"
      by (auto simp: bind_Inr_iff)
    from Cons.IH[OF r] obtain bs where
      bs: "r = ((acc @ [c]) @ [a]) @ concat bs" "list_all2 (slugBlock subject) rest bs" by blast
    have "slugBlock subject slug [c, a]" using s c a by (simp add: slugBlock_def)
    with bs have "r = acc @ concat ([c, a] # bs) \<and> list_all2 (slugBlock subject) (slug # rest) ([c, a] # bs)"
      by simp
    then show ?thesis by blast
  next
    case False
    from Cons.prems False obtain a where a: "slugAttempt slug = Inr a"
      and r: "slugLoop subject rest (acc @ [a]) = Inr r"
      by (cases subject) (auto simp: bind_Inr_iff)
    from Cons.IH[OF r] obtain bs where
      bs: "r = (acc @ [a]) @ concat bs" "list_all2 (slugBlock subject) rest bs" by blast
    have "slugBlock subject slug [a]" using False a by (cases subject) (auto simp: slugBlock_def)
    with bs have "r = acc @ concat ([a] # bs) \<and> list_all2 (slugBlock subject) (slug # rest) ([a] # bs)"
      by simp
    then show ?thesis by blast
  qed
qed

lemma slugBlock_length:
  "slugBlock subject slug b \<Longrightarrow> length b = (if truthy subject then 2 else 1)"
  by (cases subject) (auto simp: slugBlock_def split: if_splits)

lemma slugBlock_types: "slugBlock subject slug b \<Longrightarrow> \<forall>a\<in>set b. a_type a = Subject"
  by (cases subject)
     (auto simp: slugBlock_def combinedAttempt_def slugAttempt_def bind_Inr_iff split: if_splits)

lemma blocks_length:
  "list_all2 (slugBlock subject) sl bs \<Longrightarrow>
     length (concat bs) = length sl * (if truthy subject then 2 else 1)"
  by (induction rule: list_all2_induct) (auto dest: slugBlock_length)

lemma blocks_types:
  "list_all2 (slugBlock subject) sl bs \<Longrightarrow> \<forall>a\<in>set (concat bs). a_type a = Subject"
  by (induction rule: list_all2_induct) (auto dest: slugBlock_types)

lemma blocks_nth2:
  assumes "list_all2 (slugBlock (Some s)) sl bs" "s \<noteq> []" "i < length sl"
  shows "combinedAttempt (sl ! i) s = Inr (concat bs ! (2 * i))
         \<and> slugAttempt (sl ! i) = Inr (concat bs ! (2 * i + 1))"
  using assms
proof (induction arbitrary: i rule: list_all2_induct)
  case Nil
  then show ?case by simp
next
  case (Cons slug sl b bs)
  from Cons.hyps(1) Cons.prems(1) obtain c a where
    b: "b = [c, a]" "combinedAttempt slug s = Inr c" "slugAttempt slug = Inr a"
    by (auto simp: slugBlock_def)
  show ?case
  proof (cases i)
    case 0
    with b show ?thesis by simp
  next
    case (Suc j)
    with Cons.prems have "j < length sl" by simp
    from Cons.IH[OF Cons.prems(1) this] Suc b show ?thesis by simp
  qed
qed

lemma blocks_nth1:
  assumes "list_all2 (slugBlock subject) sl bs" "\<not> truthy subject" "i < length sl"
  shows "slugAttempt (sl ! i) = Inr (concat bs ! i)"
  using assms
proof (induction arbitrary: i rule: list_all2_induct)
  case Nil
  then show ?case by simp
next
  case (Cons slug sl b bs)
  from Cons.hyps(1) Cons.prems(1) obtain a where
    b: "b = [a]" "slugAttempt slug = Inr a"
    by (cases subject) (auto simp: slugBlock_def split: if_splits)
  show ?case
  proof (cases i)
    case 0
    with b show ?thesis by simp
  next
    case (Suc j)
    with Cons.prems have "j < length sl" by simp
    from Cons.IH[OF Cons.prems(1) this] Suc b show ?thesis by simp
  qed
qed

text \<open>
  C10. A \<open>subjectSlug\<close> that is empty or made of white space only gives exactly the
  result of a call with no \<open>subjectSlug\<close>: the same attempts in the same order, with the
  same query strings and descriptions (and the same error for an unknown category).
\<close>

theorem blank_subject_is_absent:
  assumes "list_all isWhiteSpace s"
  shows "buildQueryAttempts rt (opts\<lparr>subjectSlug := Some s\<rparr>)
         = buildQueryAttempts rt (opts\<lparr>subjectSlug := None\<rparr>)"
proof -
  from assms have "trim s = []" by (intro trim_blank) (simp add: list_all_iff)
  then show ?thesis
    by (simp add: buildQueryAttempts_def slugLoop_empty_subject keywordAttempts_empty_subject
             split: option.splits)
qed

theorem blank_subject_is_absent_witness:
  "list_all isWhiteSpace [32, 9, 10, 160] \<and>
   buildQueryAttempts (js ''textbook'')
     \<lparr>subjectSlug = Some [32, 9, 10, 160], limit = None, minResults = None,
      maxAttempts = None, clientSideFilter = (None :: (nat \<Rightarrow> bool) option)\<rparr>
   = buildQueryAttempts (js ''textbook'')
     \<lparr>subjectSlug = None, limit = None, minResults = None,
      maxAttempts = None, clientSideFilter = (None :: (nat \<Rightarrow> bool) option)\<rparr>"
  using blank_subject_is_absent[of "[32, 9, 10, 160]" "js ''textbook''"
      "\<lparr>subjectSlug = None, limit = None, minResults = None,
        maxAttempts = None, clientSideFilter = (None :: (nat \<Rightarrow> bool) option)\<rparr>"]
  by (simp add: isWhiteSpace_def)

lemma slugAttempt_ok: "isWellFormed slug \<Longrightarrow> \<exists>a. slugAttempt slug = Inr a"
  using encode_wellFormed[of slug] by (auto simp: slugAttempt_def)

lemma combinedAttempt_ok:
  "isWellFormed slug \<Longrightarrow> isWellFormed s \<Longrightarrow> \<exists>a. combinedAttempt slug s = Inr a"
  using encode_wellFormed[of slug] encode_wellFormed[of s] by (auto simp: combinedAttempt_def)

lemma combinedAttempt_ill:
  "isWellFormed slug \<Longrightarrow> \<not> isWellFormed s \<Longrightarrow> combinedAttempt slug s = Inl URIError"
  using encode_wellFormed[of slug] encode_ill_formed[of s] by (auto simp: combinedAttempt_def)

lemma slugLoop_ok:
  assumes "\<forall>x\<in>set sl. isWellFormed x" "\<forall>s. subject = Some s \<longrightarrow> isWellFormed s"
  shows "\<exists>r. slugLoop subject sl acc = Inr r"
  using assms
proof (induction sl arbitrary: acc)
  case Nil
  then show ?case by simp
next
  case (Cons slug rest)
  from Cons.prems obtain a where a: "slugAttempt slug = Inr a"
    using slugAttempt_ok[of slug] by auto
  show ?case
  proof (cases "truthy subject")
    case True
    then obtain s where s: "subject = Some s" "s \<noteq> []" by (cases subject) auto
    with Cons.prems obtain c where c: "combinedAttempt slug s = Inr c"
      using combinedAttempt_ok[of slug s] by auto
    from Cons.IH[of "(acc @ [c]) @ [a]"] Cons.prems s a c show ?thesis by simp
  next
    case False
    from Cons.IH[of "acc @ [a]"] Cons.prems False a show ?thesis
      by (cases subject) simp_all
  qed
qed

lemma slugLoop_ill:
  assumes "sl \<noteq> []" "\<forall>x\<in>set sl. isWellFormed x" "s \<noteq> []" "\<not> isWellFormed s"
  shows "slugLoop (Some s) sl acc = Inl URIError"
  using assms combinedAttempt_ill[of "hd sl" s] by (cases sl) simp_all

lemma keywordAttempts_tail:
  "keywordAttempts subject ks acc = Inr r \<Longrightarrow> \<exists>t. r = acc @ t \<and> keywordTail subject ks t"
  by (cases subject) (auto simp: keywordAttempts_def keywordTail_def bind_Inr_iff split: if_splits)

lemma keywordTail_length:
  "keywordTail subject ks t \<Longrightarrow> length t = (if truthy subject then 2 else 1)"
  by (cases subject) (auto simp: keywordTail_def split: if_splits)

lemma keywordTail_types: "keywordTail subject ks t \<Longrightarrow> \<forall>a\<in>set t. a_type a = Keyword"
  by (cases subject) (auto simp: keywordTail_def split: if_splits)

lemma keywordAttempts_ok:
  assumes "noSurrogate (keywordPhrase ks)" "\<forall>s. subject = Some s \<longrightarrow> isWellFormed s"
  shows "\<exists>r. keywordAttempts subject ks acc = Inr r"
proof -
  obtain e where e: "encodeURIComponent (keywordPhrase ks) = Inr e"
    using encode_wellFormed[of "keywordPhrase ks"] noSurrogate_wellFormed[OF assms(1)] by auto
  show ?thesis
  proof (cases subject)
    case None
    with e show ?thesis by (simp add: keywordAttempts_def)
  next
    case (Some s)
    with assms have "isWellFormed (keywordPhrase ks @ js '' '' @ s)"
      using wellFormed_append[of "keywordPhrase ks @ js '' ''" s] by (simp add: noSurrogate_js)
    then obtain e1 where "encodeURIComponent (keywordPhrase ks @ js '' '' @ s) = Inr e1"
      using encode_wellFormed by blast
    with e Some show ?thesis by (simp add: keywordAttempts_def)
  qed
qed

lemma build_known:
  "RESOURCE_MAP rt = Some m \<Longrightarrow>
     buildQueryAttempts rt opts =
       bind (slugLoop (map_option trim (subjectSlug opts)) (slugs m) [])
            (keywordAttempts (map_option trim (subjectSlug opts)) (keywords m))"
  by (simp add: buildQueryAttempts_def Let_def)

lemma build_unknown: "RESOURCE_MAP rt = None \<Longrightarrow> buildQueryAttempts rt opts = Inl TypeError"
  by (simp add: buildQueryAttempts_def)

text \<open>The plan as its blocks: what \<open>buildQueryAttempts\<close> returns when it returns.\<close>
lemma plan_shape:
  assumes "buildQueryAttempts rt (opts :: 'd SearchOptions) = Inr as"
  shows "\<exists>m bs t. RESOURCE_MAP rt = Some m \<and> as = concat bs @ t
           \<and> list_all2 (slugBlock (map_option trim (subjectSlug opts))) (slugs m) bs
           \<and> keywordTail (map_option trim (subjectSlug opts)) (keywords m) t"
proof -
  let ?subject = "map_option trim (subjectSlug opts)"
  from assms obtain m where m: "RESOURCE_MAP rt = Some m"
    by (auto simp: buildQueryAttempts_def split: option.splits)
  with assms obtain r where r: "slugLoop ?subject (slugs m) [] = Inr r"
    and k: "keywordAttempts ?subject (keywords m) r = Inr as"
    by (auto simp: build_known bind_Inr_iff)
  from slugLoop_blocks[OF r] obtain bs where
    bs: "r = concat bs" "list_all2 (slugBlock ?subject) (slugs m) bs" by auto
  from keywordAttempts_tail[OF k] obtain t where
    t: "as = r @ t" "keywordTail ?subject (keywords m) t" by auto
  from m bs t show ?thesis by blast
qed

lemma plan_length:
  assumes "buildQueryAttempts rt (opts :: 'd SearchOptions) = Inr as" "RESOURCE_MAP rt = Some m"
  shows "length as = length (slugs m) * (if truthy (map_option trim (subjectSlug opts)) then 2 else 1)
           + (if truthy (map_option trim (subjectSlug opts)) then 2 else 1)"
proof -
  from plan_shape[OF assms(1)] assms(2) obtain bs t where
    "as = concat bs @ t"
    "list_all2 (slugBlock (map_option trim (subjectSlug opts))) (slugs m) bs"
    "keywordTail (map_option trim (subjectSlug opts)) (keywords m) t" by auto
  then show ?thesis
    using blocks_length[of "map_option trim (subjectSlug opts)" "slugs m" bs]
      keywordTail_length[of "map_option trim (subjectSlug opts)" "keywords m" t]
    by simp
qed

lemma plan_ok:
  assumes "RESOURCE_MAP rt = Some m"
    and "\<forall>s. map_option trim (subjectSlug opts) = Some s \<longrightarrow> isWellFormed s"
  shows "\<exists>as. buildQueryAttempts rt (opts :: 'd SearchOptions) = Inr as"
proof -
  let ?subject = "map_option trim (subjectSlug opts)"
  from table_entries[OF assms(1)] have
    sl: "\<forall>x\<in>set (slugs m). isWellFormed x" and ks: "noSurrogate (keywordPhrase (keywords m))"
    by (auto intro: noSurrogate_wellFormed noSurrogate_keywordPhrase)
  from slugLoop_ok[OF sl assms(2)] obtain r where "slugLoop ?subject (slugs m) [] = Inr r"
    by blast
  moreover from keywordAttempts_ok[OF ks assms(2)] obtain as where
    "keywordAttempts ?subject (keywords m) r = Inr as" by blast
  ultimately show ?thesis by (simp add: build_known[OF assms(1)])
qed

lemma plan_ill:
  assumes "RESOURCE_MAP rt = Some m"
    and "map_option trim (subjectSlug opts) = Some s" "\<not> isWellFormed s"
  shows "buildQueryAttempts rt (opts :: 'd SearchOptions) = Inl URIError"
proof -
  from table_entries[OF assms(1)] have
    sl: "\<forall>x\<in>set (slugs m). isWellFormed x" "slugs m \<noteq> []"
    by (auto intro: noSurrogate_wellFormed)
  from assms(3) have "s \<noteq> []" by auto
  from slugLoop_ill[OF sl(2) sl(1) this assms(3)]
  have "slugLoop (Some s) (slugs m) [] = Inl URIError" .
  then show ?thesis unfolding build_known[OF assms(1)] assms(2) by simp
qed


lemma subject_before_keyword:
  assumes "as = xs @ t" "\<forall>a\<in>set xs. a_type a = Subject" "\<forall>a\<in>set t. a_type a = Keyword"
    and "i < length as" "j < length as" "a_type (as ! i) = Subject" "a_type (as ! j) = Keyword"
  shows "i < j"
proof -
  have "i < length xs"
  proof (rule ccontr)
    assume "\<not> i < length xs"
    with assms(1,4) have "as ! i \<in> set t" by (simp add: nth_append)
    with assms(3,6) show False by auto
  qed
  moreover have "length xs \<le> j"
  proof (rule ccontr)
    assume "\<not> length xs \<le> j"
    with assms(1) have "as ! j \<in> set xs" by (simp add: nth_append)
    with assms(2,7) show False by auto
  qed
  ultimately show ?thesis by simp
qed

subsection \<open>Evaluation at the example inputs\<close>

lemmas eval_defs = buildQueryAttempts_def RESOURCE_MAP_def RESOURCE_TABLE_def js_def trim_def
  isWhiteSpace_def combinedAttempt_def slugAttempt_def keywordAttempts_def keywordPhrase_def
  uriUnreserved_def isAlnum_def isLowSurrogate_def isHighSurrogate_def utf8Encode_def
  escapeOctets_def escapeOctet_def hexDigit_def

lemma studyGuide_entry: "RESOURCE_MAP (js ''study_guide'') = Some studyGuide"
  by (simp add: RESOURCE_MAP_def RESOURCE_TABLE_def studyGuide_def)

lemma studyGuide_science_plan:
  "buildQueryAttempts (js ''study_guide'') (noOptions\<lparr>subjectSlug := Some (js '' science '')\<rparr>)
     = Inr studyGuideSciencePlan"
  by (simp add: eval_defs noOptions_def studyGuideSciencePlan_def)

lemma trim_science: "trim (js '' science '') = js ''science''"
  by (simp add: js_def trim_def isWhiteSpace_def)

text \<open>
  C4. In a list that \<open>buildQueryAttempts\<close> returns, with a subject token \<open>s\<close> supplied:
  for the i-th slug the combined slug-and-subject attempt is at position 2i and the
  slug-alone attempt right after it at 2i+1; the two keyword attempts come last, the one
  whose query is the phrase with the subject before the one with the phrase alone. With or
  without a subject, every subject-filter attempt is before every keyword-search attempt.
\<close>

theorem plan_order:
  assumes "buildQueryAttempts rt (opts :: 'd SearchOptions) = Inr as"
    and "RESOURCE_MAP rt = Some m"
  shows "(map_option trim (subjectSlug opts) = Some s \<and> s \<noteq> [] \<longrightarrow>
            length as = 2 * length (slugs m) + 2
            \<and> (\<forall>i<length (slugs m).
                  combinedAttempt (slugs m ! i) s = Inr (as ! (2 * i))
                  \<and> slugAttempt (slugs m ! i) = Inr (as ! (2 * i + 1)))
            \<and> a_type (as ! (2 * length (slugs m))) = Keyword
            \<and> encodeURIComponent (keywordPhrase (keywords m) @ js '' '' @ s)
                = Inr (a_q (as ! (2 * length (slugs m))))
            \<and> a_type (as ! (2 * length (slugs m) + 1)) = Keyword
            \<and> encodeURIComponent (keywordPhrase (keywords m))
                = Inr (a_q (as ! (2 * length (slugs m) + 1))))
         \<and> (\<forall>i j. i < length as \<and> j < length as
                \<and> a_type (as ! i) = Subject \<and> a_type (as ! j) = Keyword \<longrightarrow> i < j)"
proof -
  let ?subject = "map_option trim (subjectSlug opts)"
  from plan_shape[OF assms(1)] assms(2) obtain bs t where
    as: "as = concat bs @ t" and bs: "list_all2 (slugBlock ?subject) (slugs m) bs"
    and t: "keywordTail ?subject (keywords m) t" by auto
  have order: "\<forall>i j. i < length as \<and> j < length as
                \<and> a_type (as ! i) = Subject \<and> a_type (as ! j) = Keyword \<longrightarrow> i < j"
    using subject_before_keyword[OF as blocks_types[OF bs] keywordTail_types[OF t]] by blast
  have "length as = 2 * length (slugs m) + 2
            \<and> (\<forall>i<length (slugs m).
                  combinedAttempt (slugs m ! i) s = Inr (as ! (2 * i))
                  \<and> slugAttempt (slugs m ! i) = Inr (as ! (2 * i + 1)))
            \<and> a_type (as ! (2 * length (slugs m))) = Keyword
            \<and> encodeURIComponent (keywordPhrase (keywords m) @ js '' '' @ s)
                = Inr (a_q (as ! (2 * length (slugs m))))
            \<and> a_type (as ! (2 * length (slugs m) + 1)) = Keyword
            \<and> encodeURIComponent (keywordPhrase (keywords m))
                = Inr (a_q (as ! (2 * length (slugs m) + 1)))"
    if s: "?subject = Some s" "s \<noteq> []"
  proof -
    from bs s have bs': "list_all2 (slugBlock (Some s)) (slugs m) bs" by simp
    from blocks_length[OF bs'] s have len: "length (concat bs) = 2 * length (slugs m)" by simp
    from t s obtain c a where t': "t = [c, a]" "a_type c = Keyword" "a_type a = Keyword"
      "encodeURIComponent (keywordPhrase (keywords m) @ js '' '' @ s) = Inr (a_q c)"
      "encodeURIComponent (keywordPhrase (keywords m)) = Inr (a_q a)"
      by (auto simp: keywordTail_def)
    have nth: "as ! (2 * i) = concat bs ! (2 * i) \<and> as ! (2 * i + 1) = concat bs ! (2 * i + 1)"
      if "i < length (slugs m)" for i
      using that len as by (simp add: nth_append)
    have "as ! (2 * length (slugs m)) = c" "as ! (2 * length (slugs m) + 1) = a"
      using as len t' by (simp_all add: nth_append)
    with t' as len blocks_nth2[OF bs' s(2)] nth show ?thesis by simp
  qed
  with order show ?thesis by blast
qed

theorem plan_order_witness:
  "buildQueryAttempts (js ''study_guide'') (noOptions\<lparr>subjectSlug := Some (js '' science '')\<rparr>)
     = Inr studyGuideSciencePlan
   \<and> RESOURCE_MAP (js ''study_guide'') = Some studyGuide
   \<and> map_option trim (subjectSlug (noOptions\<lparr>subjectSlug := Some (js '' science '')\<rparr>))
       = Some (js ''science'')
   \<and> js ''science'' \<noteq> []
   \<and> length studyGuideSciencePlan = 6
   \<and> combinedAttempt (js ''study guides'') (js ''science'') = Inr (studyGuideSciencePlan ! 0)
   \<and> slugAttempt (js ''study guides'') = Inr (studyGuideSciencePlan ! 1)
   \<and> combinedAttempt (js ''study-guides'') (js ''science'') = Inr (studyGuideSciencePlan ! 2)
   \<and> slugAttempt (js ''study-guides'') = Inr (studyGuideSciencePlan ! 3)
   \<and> a_type (studyGuideSciencePlan ! 4) = Keyword
   \<and> a_type (studyGuideSciencePlan ! 5) = Keyword"
proof -
  have s: "map_option trim (subjectSlug (noOptions\<lparr>subjectSlug := Some (js '' science '')\<rparr>))
       = Some (js ''science'')" "js ''science'' \<noteq> []"
    by (simp_all add: trim_science) (simp add: js_def)
  have two: "length (slugs studyGuide) = Suc (Suc 0)" "slugs studyGuide ! 0 = js ''study guides''"
    "slugs studyGuide ! Suc 0 = js ''study-guides''"
    by (simp_all add: studyGuide_def)
  from plan_order[OF studyGuide_science_plan studyGuide_entry, of "js ''science''"] s
  show ?thesis
    by (simp add: studyGuide_science_plan studyGuide_entry two All_less_Suc)
qed

lemma wellFormedSubject_iff:
  "wellFormedSubject opts \<longleftrightarrow> (\<forall>s. map_option trim (subjectSlug opts) = Some s \<longrightarrow> isWellFormed s)"
  by (cases "subjectSlug opts") (simp_all add: wellFormedSubject_def)

text \<open>
  C3 (as amended). For a configured category and options whose trimmed subject has no
  unpaired surrogate, \<open>buildQueryAttempts\<close> returns a non-empty list of length
  (number of slugs) * (2 with a non-empty subject token, else 1) + (2 with one, else 1);
  the slug list and the keyword list of every category are non-empty.
\<close>

theorem plan_length_formula:
  assumes "RESOURCE_MAP rt = Some m" and "wellFormedSubject (opts :: 'd SearchOptions)"
  shows "slugs m \<noteq> [] \<and> keywords m \<noteq> []
         \<and> (\<exists>as. buildQueryAttempts rt opts = Inr as \<and> as \<noteq> []
               \<and> length as =
                   length (slugs m) * (if truthy (map_option trim (subjectSlug opts)) then 2 else 1)
                   + (if truthy (map_option trim (subjectSlug opts)) then 2 else 1))"
proof -
  from assms(2) have wf: "\<forall>s. map_option trim (subjectSlug opts) = Some s \<longrightarrow> isWellFormed s"
    by (simp only: wellFormedSubject_iff)
  from plan_ok[OF assms(1) wf] obtain as where as: "buildQueryAttempts rt opts = Inr as"
    by blast
  from plan_length[OF as assms(1)] have
    len: "length as =
            length (slugs m) * (if truthy (map_option trim (subjectSlug opts)) then 2 else 1)
            + (if truthy (map_option trim (subjectSlug opts)) then 2 else 1)" .
  then have "as \<noteq> []" by (auto split: if_splits)
  with as len table_entries[OF assms(1)] show ?thesis by blast
qed

theorem plan_length_formula_witness:
  "RESOURCE_MAP (js ''study_guide'') = Some studyGuide
   \<and> wellFormedSubject (noOptions\<lparr>subjectSlug := Some (js '' science '')\<rparr>)
   \<and> (\<exists>as. buildQueryAttempts (js ''study_guide'')
               (noOptions\<lparr>subjectSlug := Some (js '' science '')\<rparr>) = Inr as
          \<and> as \<noteq> [] \<and> length as = 6)"
proof -
  have wf: "wellFormedSubject (noOptions\<lparr>subjectSlug := Some (js '' science '')\<rparr>)"
    by (simp add: wellFormedSubject_def trim_science noSurrogate_wellFormed noSurrogate_js)
  have "truthy (map_option trim (subjectSlug (noOptions\<lparr>subjectSlug := Some (js '' science '')\<rparr>)))"
    by (simp add: trim_science) (simp add: js_def)
  with plan_length_formula[OF studyGuide_entry wf] wf studyGuide_entry show ?thesis
    by (simp add: studyGuide_def)
qed

theorem plan_length_counterexample:
  "RESOURCE_MAP (js ''study_guide'') = Some studyGuide
   \<and> buildQueryAttempts (js ''study_guide'') (noOptions\<lparr>subjectSlug := Some [55296]\<rparr>)
       = Inl URIError
   \<and> \<not> (\<exists>as. buildQueryAttempts (js ''study_guide'') (noOptions\<lparr>subjectSlug := Some [55296]\<rparr>)
              = Inr as \<and> as \<noteq> [])"
proof -
  have "buildQueryAttempts (js ''study_guide'') (noOptions\<lparr>subjectSlug := Some [55296]\<rparr>)
          = Inl URIError"
    by (simp add: eval_defs noOptions_def)
  with studyGuide_entry show ?thesis by simp
qed

section \<open>Decoding what was encoded\<close>

lemma prepend_prepend: "prepend a (prepend b x) = prepend (a @ b) x"
  by (cases x) simp_all

lemma prepend_Nil [simp]: "prepend [] x = x"
  by (cases x) simp_all

lemma unat_hexDigit: "d < 16 \<Longrightarrow> unat (hexDigit d) = (if d < 10 then 48 + d else 55 + d)"
  by (simp add: hexDigit_def unat_of_nat)

lemma hexValue_hexDigit: "d < 16 \<Longrightarrow> hexValue (hexDigit d) = Some d"
  by (simp add: hexValue_def unat_hexDigit)

lemma parse_escape: "b < 256 \<Longrightarrow> parseHexOctet (escapeOctet b @ r) = Some (b, r)"
proof -
  assume b: "b < 256"
  then have "b div 16 < 16" "b mod 16 < 16" by simp_all
  then show ?thesis
    by (simp add: escapeOctet_def hexValue_hexDigit)
qed

lemma read_escapes_length:
  "\<forall>b\<in>set bs. b < 256 \<Longrightarrow> readOctets (length bs) (escapeOctets bs @ r) = Some (bs, r)"
  by (induction bs) (simp_all add: escapeOctets_def parse_escape)

lemma read_escapes:
  "\<forall>b\<in>set bs. b < 256 \<Longrightarrow> n = length bs \<Longrightarrow>
     readOctets n (escapeOctets bs @ r) = Some (bs, r)"
  by (simp add: read_escapes_length)

lemma decode_escape:
  assumes "b < 256"
  shows "decodeURIComponent (escapeOctet b @ r) =
     (if leadingOnes b = 0 then prepend [of_nat b] (decodeURIComponent r)
      else if leadingOnes b = 1 \<or> 4 < leadingOnes b then Inl URIError
      else
        (case readOctets (leadingOnes b - 1) r of
           None \<Rightarrow> Inl URIError
         | Some (bs, s2) \<Rightarrow>
             (case utf8Decode (b # bs) of
                None \<Rightarrow> Inl URIError
              | Some cp \<Rightarrow> prepend (utf16Encode cp) (decodeURIComponent s2))))"
proof -
  have "escapeOctet b @ r = 37 # (hexDigit (b div 16) # hexDigit (b mod 16) # r)"
    by (simp add: escapeOctet_def)
  moreover have "parseHexOctet (37 # (hexDigit (b div 16) # hexDigit (b mod 16) # r)) = Some (b, r)"
    using parse_escape[OF assms, of r] by (simp add: escapeOctet_def)
  ultimately show ?thesis
    by (simp only: decodeURIComponent.simps) simp
qed

lemma split64: "(n::nat) div 64 div 64 * 64 + n div 64 mod 64 = n div 64"
  by (rule div_mult_mod_eq)

lemma octets3: "cp div 4096 * 4096 + cp div 64 mod 64 * 64 + cp mod 64 = (cp::nat)" 
proof -
  have d: "cp div 4096 = cp div 64 div 64" using div_mult2_eq[of cp 64 64] by simp
  have "cp div 64 = cp div 4096 * 64 + cp div 64 mod 64"
    unfolding d by (rule split64[symmetric])
  moreover have "cp = cp div 64 * 64 + cp mod 64" by simp
  ultimately show ?thesis by linarith
qed

lemma octets4: "cp div 262144 * 262144 + cp div 4096 mod 64 * 4096 + cp div 64 mod 64 * 64 + cp mod 64 = (cp::nat)"
proof -
  have d: "cp div 4096 = cp div 64 div 64" using div_mult2_eq[of cp 64 64] by simp
  have e: "cp div 262144 = cp div 4096 div 64" using div_mult2_eq[of cp 4096 64] by simp
  have "cp div 4096 = cp div 262144 * 64 + cp div 4096 mod 64"
    unfolding e by (rule div_mult_mod_eq[symmetric])
  moreover have "cp div 64 = cp div 4096 * 64 + cp div 64 mod 64"
    unfolding d by (rule split64[symmetric])
  moreover have "cp = cp div 64 * 64 + cp mod 64" by simp
  ultimately show ?thesis by linarith
qed

lemma utf8Encode_octets:
  "cp < 1114112 \<Longrightarrow> \<forall>b\<in>set (utf8Encode cp). b < 256"
  by (auto simp: utf8Encode_def)

lemma decode_scalar:
  assumes "cp < 1114112" "\<not> (55296 \<le> cp \<and> cp \<le> 57343)"
  shows "decodeURIComponent (escapeOctets (utf8Encode cp) @ r)
         = prepend (utf16Encode cp) (decodeURIComponent r)"
proof -
  consider (one) "cp < 128" | (two) "128 \<le> cp" "cp < 2048" | (three) "2048 \<le> cp" "cp < 65536"
    | (four) "65536 \<le> cp" by linarith
  then show ?thesis
  proof cases
    case one
    then show ?thesis
      by (simp add: utf8Encode_def escapeOctets_def decode_escape leadingOnes_def utf16Encode_def)
  next
    case two
    let ?b1 = "192 + cp div 64" and ?b2 = "128 + cp mod 64"
    from two have b: "?b1 < 256" "?b2 < 256" "192 \<le> ?b1" "?b1 < 224" by simp_all
    have enc: "escapeOctets (utf8Encode cp) @ r = escapeOctet ?b1 @ (escapeOctets [?b2] @ r)"
      using two by (simp add: utf8Encode_def escapeOctets_def)
    have rd: "readOctets (Suc 0) (escapeOctets [?b2] @ r) = Some ([?b2], r)"
      by (rule read_escapes) (use b in simp_all)
    have dec: "utf8Decode [?b1, ?b2] = Some cp"
      using two by (simp add: isContinuation_def)
    from b have lo: "leadingOnes ?b1 = 2" by (simp add: leadingOnes_def)
    show ?thesis
      unfolding enc decode_escape[OF b(1)] lo using rd dec by simp
  next
    case three
    let ?b1 = "224 + cp div 4096" and ?b2 = "128 + (cp div 64) mod 64" and ?b3 = "128 + cp mod 64"
    from three have b: "?b1 < 256" "?b2 < 256" "?b3 < 256" "224 \<le> ?b1" "?b1 < 240" by simp_all
    have enc: "escapeOctets (utf8Encode cp) @ r = escapeOctet ?b1 @ (escapeOctets [?b2, ?b3] @ r)"
      using three by (simp add: utf8Encode_def escapeOctets_def)
    have rd: "readOctets 2 (escapeOctets [?b2, ?b3] @ r) = Some ([?b2, ?b3], r)"
      by (rule read_escapes) (use b in simp_all)
    from octets3[of cp] have dec: "utf8Decode [?b1, ?b2, ?b3] = Some cp"
      using three assms(2) by (simp add: isContinuation_def)
    from b have lo: "leadingOnes ?b1 = 3" by (simp add: leadingOnes_def)
    show ?thesis
      unfolding enc decode_escape[OF b(1)] lo using rd dec by simp
  next
    case four
    let ?b1 = "240 + cp div 262144" and ?b2 = "128 + (cp div 4096) mod 64"
      and ?b3 = "128 + (cp div 64) mod 64" and ?b4 = "128 + cp mod 64"
    from four assms(1) have b: "?b1 < 256" "?b2 < 256" "?b3 < 256" "?b4 < 256" "240 \<le> ?b1" "?b1 < 248"
      by simp_all
    have enc: "escapeOctets (utf8Encode cp) @ r
                 = escapeOctet ?b1 @ (escapeOctets [?b2, ?b3, ?b4] @ r)"
      using four by (simp add: utf8Encode_def escapeOctets_def)
    have rd: "readOctets 3 (escapeOctets [?b2, ?b3, ?b4] @ r) = Some ([?b2, ?b3, ?b4], r)"
      by (rule read_escapes) (use b in simp_all)
    from octets4[of cp] have dec: "utf8Decode [?b1, ?b2, ?b3, ?b4] = Some cp"
      using four assms(1) by (simp add: isContinuation_def)
    from b have lo: "leadingOnes ?b1 = 4" by (simp add: leadingOnes_def)
    show ?thesis
      unfolding enc decode_escape[OF b(1)] lo using rd dec by simp
  qed
qed


lemma unat_lt: "unat (c :: jschar) < 65536"
  using unsigned_less[of c] by simp

lemma utf16_unit:
  "\<not> isHighSurrogate c \<Longrightarrow> \<not> isLowSurrogate c \<Longrightarrow> utf16Encode (unat c) = [c]"
  using unat_lt[of c] by (simp add: utf16Encode_def)

lemma high_offset:
  assumes "isHighSurrogate c"
  obtains h where "unat c = 55296 + h" "h < 1024"
proof -
  from assms have "55296 \<le> unat c" "unat c \<le> 56319" by (simp_all add: isHighSurrogate_def)
  then have "unat c = 55296 + (unat c - 55296)" "unat c - 55296 < 1024" by linarith+
  then show ?thesis by (rule that)
qed

lemma low_offset:
  assumes "isLowSurrogate d"
  obtains l where "unat d = 56320 + l" "l < 1024"
proof -
  from assms have "56320 \<le> unat d" "unat d \<le> 57343" by (simp_all add: isLowSurrogate_def)
  then have "unat d = 56320 + (unat d - 56320)" "unat d - 56320 < 1024" by linarith+
  then show ?thesis by (rule that)
qed

lemma surrogatePair_range:
  assumes "isHighSurrogate c" "isLowSurrogate d"
  shows "65536 \<le> surrogatePair c d \<and> surrogatePair c d < 1114112"
proof -
  from assms(1) obtain h where h: "unat c = 55296 + h" "h < 1024" by (rule high_offset)
  from assms(2) obtain l where l: "unat d = 56320 + l" "l < 1024" by (rule low_offset)
  have "surrogatePair c d = 65536 + (h * 1024 + l)"
    using h l by (simp add: surrogatePair_def)
  with h(2) l(2) show ?thesis by linarith
qed

lemma utf16_pair:
  assumes "isHighSurrogate c" "isLowSurrogate d"
  shows "utf16Encode (surrogatePair c d) = [c, d]"
proof -
  from assms(1) obtain h where h: "unat c = 55296 + h" "h < 1024" by (rule high_offset)
  from assms(2) obtain l where l: "unat d = 56320 + l" "l < 1024" by (rule low_offset)
  have sp: "surrogatePair c d = 65536 + (h * 1024 + l)"
    using h l by (simp add: surrogatePair_def)
  have "(h * 1024 + l) div 1024 = h" "(h * 1024 + l) mod 1024 = l"
    using l(2) by simp_all
  then have "utf16Encode (surrogatePair c d) = [of_nat (unat c), of_nat (unat d)]"
    unfolding sp using h l by (simp add: utf16Encode_def)
  then show ?thesis by simp
qed

lemma unreserved_not_percent: "uriUnreserved c \<Longrightarrow> c \<noteq> 37"
  by (auto simp: uriUnreserved_def isAlnum_def)

lemma decode_after_encode:
  "encodeURIComponent s = Inr e \<Longrightarrow>
     decodeURIComponent (e @ r) = prepend s (decodeURIComponent r)"
proof (induction s arbitrary: e rule: encodeURIComponent.induct)
  case 1
  then show ?case by simp
next
  case (2 c s)
  show ?case
  proof (cases "uriUnreserved c")
    case True
    with "2.prems" obtain e' where e': "encodeURIComponent s = Inr e'" "e = c # e'"
      by (auto simp: prepend_Inr_iff)
    from "2.IH"(1)[OF True e'(1)] unreserved_not_percent[OF True] e'(2) show ?thesis
      by (simp add: prepend_prepend)
  next
    case nu: False
    show ?thesis
    proof (cases "isLowSurrogate c")
      case True
      with nu "2.prems" show ?thesis by simp
    next
      case nl: False
      show ?thesis
      proof (cases "isHighSurrogate c")
        case hi: True
        with nu nl "2.prems" obtain d s' e' where
          d: "s = d # s'" "isLowSurrogate d" "encodeURIComponent s' = Inr e'"
             "e = escapeOctets (utf8Encode (surrogatePair c d)) @ e'"
          by (cases s) (auto simp: prepend_Inr_iff split: if_splits)
        from surrogatePair_range[OF hi d(2)] have
          sc: "surrogatePair c d < 1114112" "\<not> (55296 \<le> surrogatePair c d \<and> surrogatePair c d \<le> 57343)"
          by linarith+
        from "2.IH"(2)[OF nu nl hi d(1,2,3)] have
          "decodeURIComponent (e' @ r) = prepend s' (decodeURIComponent r)" .
        with decode_scalar[OF sc, of "e' @ r"] d(1,4) utf16_pair[OF hi d(2)] show ?thesis
          by (simp add: prepend_prepend)
      next
        case lo: False
        with nu nl "2.prems" obtain e' where
          e': "encodeURIComponent s = Inr e'" "e = escapeOctets (utf8Encode (unat c)) @ e'"
          by (auto simp: prepend_Inr_iff)
        from lo nl unat_lt[of c] have
          sc: "unat c < 1114112" "\<not> (55296 \<le> unat c \<and> unat c \<le> 57343)"
          unfolding isHighSurrogate_def isLowSurrogate_def by linarith+
        from "2.IH"(3)[OF nu nl lo e'(1)] have
          "decodeURIComponent (e' @ r) = prepend s (decodeURIComponent r)" .
        with decode_scalar[OF sc, of "e' @ r"] e'(2) utf16_unit[OF lo nl] show ?thesis
          by (simp add: prepend_prepend)
      qed
    qed
  qed
qed

subsection \<open>Every attempt of a plan has a request URL\<close>

lemma decode_literal:
  "37 \<notin> set p \<Longrightarrow> decodeURIComponent (p @ r) = prepend p (decodeURIComponent r)"
  by (induction p) (auto simp: prepend_prepend)

lemma subject_literals: "37 \<notin> set (js ''subject:'')" "37 \<notin> set (js ''+subject:'')"
  by (simp_all add: js_def)

lemma decode_encoded: "encodeURIComponent s = Inr e \<Longrightarrow> decodeURIComponent e = Inr s"
  using decode_after_encode[of s e "[]"] by simp

lemma slugAttempt_decoded:
  assumes "slugAttempt slug = Inr a"
  shows "a_type a = Subject \<and> decodeURIComponent (a_q a) = Inr (js ''subject:'' @ slug)"
proof -
  from assms obtain es where es: "encodeURIComponent slug = Inr es"
    and a: "a = \<lparr>a_type = Subject, a_q = js ''subject:'' @ es,
                  a_description = js ''subject:'' @ slug\<rparr>"
    by (auto simp: slugAttempt_def bind_Inr_iff)
  from a show ?thesis
    by (simp add: decode_literal[OF subject_literals(1)] decode_encoded[OF es])
qed

lemma combinedAttempt_decoded:
  assumes "combinedAttempt slug s = Inr a"
  shows "a_type a = Subject
         \<and> decodeURIComponent (a_q a) = Inr (js ''subject:'' @ slug @ js ''+subject:'' @ s)"
proof -
  from assms obtain es esub where es: "encodeURIComponent slug = Inr es"
    and esub: "encodeURIComponent s = Inr esub"
    and a: "a = \<lparr>a_type = Subject, a_q = js ''subject:'' @ es @ js ''+subject:'' @ esub,
                  a_description = js ''subject:'' @ slug @ js '' AND subject:'' @ s\<rparr>"
    by (auto simp: combinedAttempt_def bind_Inr_iff)
  have "decodeURIComponent (es @ js ''+subject:'' @ esub) = Inr (slug @ js ''+subject:'' @ s)"
    by (simp add: decode_after_encode[OF es] decode_literal[OF subject_literals(2)]
          decode_encoded[OF esub])
  with a show ?thesis
    by (simp add: decode_literal[OF subject_literals(1)])
qed

lemma slugAttempt_decodable: "slugAttempt slug = Inr a \<Longrightarrow> decodable a"
  using slugAttempt_decoded[of slug a] by (simp add: decodable_def)

lemma combinedAttempt_decodable: "combinedAttempt slug s = Inr a \<Longrightarrow> decodable a"
  using combinedAttempt_decoded[of slug s a] by (simp add: decodable_def)

lemma encoded_decodable: "encodeURIComponent s = Inr (a_q a) \<Longrightarrow> decodable a"
  using decode_encoded[of s "a_q a"] by (simp add: decodable_def)

lemma slugBlock_decodable:
  assumes "slugBlock subject slug b"
  shows "\<forall>a\<in>set b. decodable a"
proof (cases "truthy subject")
  case True
  then obtain s where "subject = Some s" "s \<noteq> []" by (cases subject) auto
  with assms obtain c a where "b = [c, a]" "combinedAttempt slug s = Inr c"
    "slugAttempt slug = Inr a" by (auto simp: slugBlock_def)
  then show ?thesis by (simp add: slugAttempt_decodable combinedAttempt_decodable)
next
  case False
  with assms obtain a where "b = [a]" "slugAttempt slug = Inr a"
    by (cases subject) (auto simp: slugBlock_def split: if_splits)
  then show ?thesis by (simp add: slugAttempt_decodable)
qed

lemma blocks_decodable:
  "list_all2 (slugBlock subject) sl bs \<Longrightarrow> \<forall>a\<in>set (concat bs). decodable a"
  by (induction rule: list_all2_induct) (auto dest: slugBlock_decodable)

lemma keywordTail_decodable:
  assumes "keywordTail subject ks t"
  shows "\<forall>a\<in>set t. decodable a"
proof (cases "truthy subject")
  case True
  then obtain s where "subject = Some s" "s \<noteq> []" by (cases subject) auto
  with assms obtain c a where "t = [c, a]"
    "encodeURIComponent (keywordPhrase ks @ js '' '' @ s) = Inr (a_q c)"
    "encodeURIComponent (keywordPhrase ks) = Inr (a_q a)" by (auto simp: keywordTail_def)
  then show ?thesis by (simp add: encoded_decodable)
next
  case False
  with assms obtain a where "t = [a]" "encodeURIComponent (keywordPhrase ks) = Inr (a_q a)"
    by (cases subject) (auto simp: keywordTail_def split: if_splits)
  then show ?thesis by (simp add: encoded_decodable)
qed

lemma requestUrl_decodable: "decodable a \<Longrightarrow> \<exists>u. requestUrl fmt lmt a = Inr u"
  by (cases "a_type a") (auto simp: requestUrl_def decodable_def Let_def)

lemma plan_urls:
  assumes "buildQueryAttempts rt (opts :: 'd SearchOptions) = Inr as"
  shows "\<forall>a\<in>set as. \<exists>u. requestUrl fmt lmt a = Inr u"
proof -
  from plan_shape[OF assms] obtain m :: ResourceMapEntry and bs t where
    as: "as = concat bs @ t"
    and bs: "list_all2 (slugBlock (map_option trim (subjectSlug opts))) (slugs m) bs"
    and t: "keywordTail (map_option trim (subjectSlug opts)) (keywords m) t" by blast
  from blocks_decodable[OF bs] keywordTail_decodable[OF t] as
  have "\<forall>a\<in>set as. decodable a" by auto
  then show ?thesis by (blast intro: requestUrl_decodable)
qed

section \<open>The loop\<close>

lemma requests_append [simp]: "requests (a @ b) = requests a @ requests b"
  by (induction a rule: requests.induct) simp_all

lemma indexBelow_mono: "indexBelow i x \<Longrightarrow> j \<le> i \<Longrightarrow> indexBelow j x"
  by (cases x) auto

lemma indexBelow_min:
  "indexBelow i (mathMin m (Num (real len))) \<longleftrightarrow> indexBelow i m \<and> i < len"
  by (cases m) auto

lemma attemptsRun_Suc:
  "attemptsRun x (Suc len) = attemptsRun x len + (if indexBelow len x then 1 else 0)"
  by (simp add: attemptsRun_def)

lemma attemptsRun_le: "attemptsRun x len \<le> len"
  unfolding attemptsRun_def using length_filter_le[of "\<lambda>i. indexBelow i x" "[0..<len]"] by simp

lemma attemptsRun_iff: "i < attemptsRun x len \<longleftrightarrow> i < len \<and> indexBelow i x"
proof (induction len arbitrary: i)
  case 0
  then show ?case by (simp add: attemptsRun_def)
next
  case (Suc len)
  show ?case
  proof (cases "indexBelow len x")
    case True
    have "attemptsRun x len = len"
    proof (rule antisym[OF attemptsRun_le])
      show "len \<le> attemptsRun x len"
      proof (cases len)
        case 0
        then show ?thesis by simp
      next
        case (Suc p)
        with True have "p < len \<and> indexBelow p x" using indexBelow_mono[of len x p] by simp
        then have "p < attemptsRun x len" by (simp only: Suc.IH)
        with Suc show ?thesis by simp
      qed
    qed
    with True have run: "attemptsRun x (Suc len) = Suc len" by (simp add: attemptsRun_Suc)
    show ?thesis
      unfolding run using True indexBelow_mono[of len x i] by auto
  next
    case False
    then have run: "attemptsRun x (Suc len) = attemptsRun x len" by (simp add: attemptsRun_Suc)
    show ?thesis
      unfolding run Suc.IH using False by (auto simp: less_Suc_eq)
  qed
qed

lemma maxAttempts_run:
  "indexBelow i (maxAttemptsOf opts as)
     \<longleftrightarrow> i < attemptsRun (maxAttemptsOf opts as) (length as)"
  unfolding attemptsRun_iff by (auto simp: maxAttemptsOf_def indexBelow_min)

lemma runSmartSearch_plan:
  "buildQueryAttempts rt opts = Inr as \<Longrightarrow>
     runSmartSearch fmt net rt opts =
       searchLoop fmt net (clientSideFilter opts) as (limitOf opts) (minResultsOf opts)
         (maxAttemptsOf opts as) 0 [] []"
  by (simp add: runSmartSearch_def limitOf_def minResultsOf_def maxAttemptsOf_def Let_def)

lemma runSmartSearch_no_plan:
  "buildQueryAttempts rt opts = Inl e \<Longrightarrow> runSmartSearch fmt net rt opts = (Inl e, [])"
  by (simp add: runSmartSearch_def)

lemma attemptUrl_ok:
  "\<forall>a\<in>set as. \<exists>u. requestUrl fmt lmt a = Inr u \<Longrightarrow> j < length as \<Longrightarrow>
     requestUrl fmt lmt (as ! j) = Inr (attemptUrl fmt lmt as j)"
proof -
  assume "\<forall>a\<in>set as. \<exists>u. requestUrl fmt lmt a = Inr u" "j < length as"
  then obtain u where "requestUrl fmt lmt (as ! j) = Inr u" using nth_mem by blast
  then show ?thesis by (simp add: attemptUrl_def)
qed

lemma searchLoop_stop:
  "\<not> indexBelow i maxAtt \<Longrightarrow>
     searchLoop fmt net flt as lmt minRes maxAtt i lastR tr =
       (Inr \<lparr>docs = lastR, attempt = maxAtt, description = js ''fallback'', url = None\<rparr>, tr)"
  by (subst searchLoop.simps) simp

lemma searchLoop_run:
  assumes "indexBelow i maxAtt" "i < length as" "requestUrl fmt lmt (as ! i) = Inr u"
    and "length (requests tr) = i"
  shows "searchLoop fmt net flt as lmt minRes maxAtt i lastR tr =
     (case tryDocs flt (net i u) of
        None \<Rightarrow> searchLoop fmt net flt as lmt minRes maxAtt (Suc i) [] (tr @ [Fetch u])
      | Some ds \<Rightarrow>
          if lengthReaches (length ds) minRes then
            (Inr \<lparr>docs = ds, attempt = Num (real i + 1), description = a_description (as ! i),
                  url = Some u\<rparr>, tr @ [Fetch u])
          else searchLoop fmt net flt as lmt minRes maxAtt (Suc i) ds
                 ((tr @ [Fetch u]) @ [Sleep (120 + i * 30)]))"
  using assms by (subst searchLoop.simps) (simp add: fetch_def)

lemma loop_accept:
  assumes urls: "\<forall>a\<in>set as. \<exists>u. requestUrl fmt lmt a = Inr u"
    and "length (requests tr) = i" "i \<le> k" "k < length as" "indexBelow k maxAtt"
    and "\<forall>j. i \<le> j \<and> j < k \<longrightarrow> \<not> acceptable minRes (attemptDocs fmt net flt lmt as j)"
    and "attemptDocs fmt net flt lmt as k = Some ds" "lengthReaches (length ds) minRes"
  shows "\<exists>tr'. searchLoop fmt net flt as lmt minRes maxAtt i lastR tr =
            (Inr \<lparr>docs = ds, attempt = Num (real k + 1), description = a_description (as ! k),
                  url = Some (attemptUrl fmt lmt as k)\<rparr>, tr')
          \<and> requests tr' = requests tr @ map (attemptUrl fmt lmt as) [i..<Suc k]"
  using assms(2-)
proof (induction "k - i" arbitrary: i lastR tr)
  case 0
  then have ik: "i = k" by simp
  from attemptUrl_ok[OF urls "0.prems"(3)]
  have u: "requestUrl fmt lmt (as ! k) = Inr (attemptUrl fmt lmt as k)" .
  from "0.prems"(6) have td: "tryDocs flt (net k (attemptUrl fmt lmt as k)) = Some ds"
    by (simp add: attemptDocs_def)
  show ?case
    unfolding ik
    using searchLoop_run[OF "0.prems"(4) "0.prems"(3) u, of tr net flt minRes lastR]
      "0.prems"(1) "0.prems"(7) td ik
    by simp
next
  case (Suc n)
  then have lt: "i < k" by simp
  with Suc.prems indexBelow_mono[of k maxAtt i] have run: "indexBelow i maxAtt" "i < length as"
    by simp_all
  from attemptUrl_ok[OF urls run(2)]
  have u: "requestUrl fmt lmt (as ! i) = Inr (attemptUrl fmt lmt as i)" .
  from Suc.prems(5) lt have na: "\<not> acceptable minRes (attemptDocs fmt net flt lmt as i)" by simp
  have range: "[i..<Suc k] = i # [Suc i..<Suc k]"
    using lt by (simp add: upt_conv_Cons)
  have IH: "\<exists>tr'. searchLoop fmt net flt as lmt minRes maxAtt (Suc i) lastR' tr1 =
            (Inr \<lparr>docs = ds, attempt = Num (real k + 1), description = a_description (as ! k),
                  url = Some (attemptUrl fmt lmt as k)\<rparr>, tr')
          \<and> requests tr' = requests tr1 @ map (attemptUrl fmt lmt as) [Suc i..<Suc k]"
    if "length (requests tr1) = Suc i" for lastR' tr1
    using Suc.hyps(1)[of "Suc i" tr1 lastR'] Suc.hyps(2) Suc.prems that lt by simp
  show ?case
  proof (cases "attemptDocs fmt net flt lmt as i")
    case None
    then have td: "tryDocs flt (net i (attemptUrl fmt lmt as i)) = None"
      by (simp add: attemptDocs_def)
    from IH[of "tr @ [Fetch (attemptUrl fmt lmt as i)]" "[]"] Suc.prems(1)
    show ?thesis
      unfolding searchLoop_run[OF run u Suc.prems(1)] td range by simp
  next
    case (Some ds')
    then have td: "tryDocs flt (net i (attemptUrl fmt lmt as i)) = Some ds'"
      by (simp add: attemptDocs_def)
    from na Some have small: "\<not> lengthReaches (length ds') minRes" by (simp add: acceptable_def)
    from IH[of "(tr @ [Fetch (attemptUrl fmt lmt as i)]) @ [Sleep (120 + i * 30)]" ds']
      Suc.prems(1) small
    show ?thesis
      unfolding searchLoop_run[OF run u Suc.prems(1)] td range by simp
  qed
qed

lemma loop_fallback:
  assumes urls: "\<forall>a\<in>set as. \<exists>u. requestUrl fmt lmt a = Inr u"
    and "length (requests tr) = i" "n \<le> length as"
    and "\<forall>j. indexBelow j maxAtt \<longleftrightarrow> j < n"
    and "\<forall>j. i \<le> j \<and> j < n \<longrightarrow> \<not> acceptable minRes (attemptDocs fmt net flt lmt as j)"
  shows "\<exists>tr'. searchLoop fmt net flt as lmt minRes maxAtt i lastR tr =
            (Inr \<lparr>docs = (if i < n then lastSeen (attemptDocs fmt net flt lmt as (n - 1))
                           else lastR),
                  attempt = maxAtt, description = js ''fallback'', url = None\<rparr>, tr')
          \<and> requests tr' = requests tr @ map (attemptUrl fmt lmt as) [i..<n]"
  using assms(2-)
proof (induction "n - i" arbitrary: i lastR tr)
  case 0
  then have stop: "\<not> i < n" by linarith
  with "0.prems"(3) have "\<not> indexBelow i maxAtt" by simp
  moreover from stop have "[i..<n] = []" by simp
  ultimately show ?case using stop by (simp add: searchLoop_stop)
next
  case (Suc m)
  then have lt: "i < n" by linarith
  with Suc.prems have run: "indexBelow i maxAtt" "i < length as" by simp_all
  from attemptUrl_ok[OF urls run(2)]
  have u: "requestUrl fmt lmt (as ! i) = Inr (attemptUrl fmt lmt as i)" .
  from Suc.prems(4) lt have na: "\<not> acceptable minRes (attemptDocs fmt net flt lmt as i)" by simp
  have range: "[i..<n] = i # [Suc i..<n]"
    using lt by (simp add: upt_conv_Cons)
  have last: "(if Suc i < n
                 then lastSeen (attemptDocs fmt net flt lmt as (n - 1))
                 else lastSeen (attemptDocs fmt net flt lmt as i))
              = lastSeen (attemptDocs fmt net flt lmt as (n - 1))"
  proof (cases "Suc i < n")
    case True
    then show ?thesis by simp
  next
    case False
    with lt have "n - 1 = i" by linarith
    with False show ?thesis by simp
  qed
  have IH: "\<exists>tr'. searchLoop fmt net flt as lmt minRes maxAtt (Suc i)
                  (lastSeen (attemptDocs fmt net flt lmt as i)) tr1 =
            (Inr \<lparr>docs = lastSeen (attemptDocs fmt net flt lmt as (n - 1)),
                  attempt = maxAtt, description = js ''fallback'', url = None\<rparr>, tr')
          \<and> requests tr' = requests tr @ map (attemptUrl fmt lmt as) [i..<n]"
    if "requests tr1 = requests tr @ [attemptUrl fmt lmt as i]" for tr1
  proof -
    from that Suc.prems(1) have "length (requests tr1) = Suc i" by simp
    from Suc.hyps(1)[of "Suc i" tr1 "lastSeen (attemptDocs fmt net flt lmt as i)"] Suc.hyps(2)
      Suc.prems(2,3,4) this
    show ?thesis unfolding last range that by simp
  qed
  show ?case
  proof (cases "attemptDocs fmt net flt lmt as i")
    case None
    then have td: "tryDocs flt (net i (attemptUrl fmt lmt as i)) = None"
      by (simp add: attemptDocs_def)
    from None have ls: "lastSeen (attemptDocs fmt net flt lmt as i) = []"
      by (simp add: lastSeen_def)
    from IH[of "tr @ [Fetch (attemptUrl fmt lmt as i)]"] lt
    show ?thesis
      unfolding searchLoop_run[OF run u Suc.prems(1)] td ls by simp
  next
    case (Some ds')
    then have td: "tryDocs flt (net i (attemptUrl fmt lmt as i)) = Some ds'"
      by (simp add: attemptDocs_def)
    from Some have ls: "lastSeen (attemptDocs fmt net flt lmt as i) = ds'"
      by (simp add: lastSeen_def)
    from na Some have small: "\<not> lengthReaches (length ds') minRes" by (simp add: acceptable_def)
    from IH[of "(tr @ [Fetch (attemptUrl fmt lmt as i)]) @ [Sleep (120 + i * 30)]"] lt small
    show ?thesis
      unfolding searchLoop_run[OF run u Suc.prems(1)] td ls by simp
  qed
qed

lemma failed_no_docs: "failedResponse r \<Longrightarrow> tryDocs flt r = None"
  by (cases r) (auto simp: failedResponse_def tryDocs_def)

lemma run_accept:
  fixes net :: "'d Network"
  assumes plan: "buildQueryAttempts rt opts = Inr as"
    and k: "indexBelow k (maxAttemptsOf opts as)"
    and ds: "attemptDocs fmt net (clientSideFilter opts) (limitOf opts) as k = Some ds"
       "lengthReaches (length ds) (minResultsOf opts)"
    and first: "\<forall>j<k. \<not> acceptable (minResultsOf opts)
                  (attemptDocs fmt net (clientSideFilter opts) (limitOf opts) as j)"
  shows "fst (runSmartSearch fmt net rt opts) =
            Inr \<lparr>docs = ds, attempt = Num (real k + 1), description = a_description (as ! k),
                 url = Some (attemptUrl fmt (limitOf opts) as k)\<rparr>
         \<and> requests (snd (runSmartSearch fmt net rt opts))
             = map (attemptUrl fmt (limitOf opts) as) [0..<Suc k]"
proof -
  from k have klen: "k < length as"
    using maxAttempts_run[of k opts as] attemptsRun_iff[of k "maxAttemptsOf opts as" "length as"]
    by blast
  from loop_accept[OF plan_urls[OF plan, of fmt "limitOf opts"], of "[]" 0 k
      "maxAttemptsOf opts as" "minResultsOf opts" net "clientSideFilter opts" ds "[]"]
    klen k ds first
  show ?thesis
    unfolding runSmartSearch_plan[OF plan] by auto
qed

lemma run_fallback:
  fixes net :: "'d Network"
  assumes plan: "buildQueryAttempts rt opts = Inr as"
    and none: "\<forall>j. indexBelow j (maxAttemptsOf opts as) \<longrightarrow> \<not> acceptable (minResultsOf opts)
                  (attemptDocs fmt net (clientSideFilter opts) (limitOf opts) as j)"
  shows "fst (runSmartSearch fmt net rt opts) =
            Inr \<lparr>docs = (if 0 < attemptsRun (maxAttemptsOf opts as) (length as)
                          then lastSeen (attemptDocs fmt net (clientSideFilter opts) (limitOf opts)
                                   as (attemptsRun (maxAttemptsOf opts as) (length as) - 1))
                          else []),
                 attempt = maxAttemptsOf opts as, description = js ''fallback'', url = None\<rparr>
         \<and> requests (snd (runSmartSearch fmt net rt opts))
             = map (attemptUrl fmt (limitOf opts) as)
                 [0..<attemptsRun (maxAttemptsOf opts as) (length as)]"
proof -
  have bound: "\<forall>j. indexBelow j (maxAttemptsOf opts as)
                 \<longleftrightarrow> j < attemptsRun (maxAttemptsOf opts as) (length as)"
    by (simp add: maxAttempts_run)
  from none bound have none': "\<forall>j. 0 \<le> j \<and> j < attemptsRun (maxAttemptsOf opts as) (length as)
      \<longrightarrow> \<not> acceptable (minResultsOf opts)
                  (attemptDocs fmt net (clientSideFilter opts) (limitOf opts) as j)"
    by simp
  from loop_fallback[OF plan_urls[OF plan, of fmt "limitOf opts"] _ attemptsRun_le bound none',
      of "[]" "[]"]
  show ?thesis
    unfolding runSmartSearch_plan[OF plan] by auto
qed

text \<open>Every run is one of the two.\<close>
lemma run_cases:
  fixes net :: "'d Network"
  assumes plan: "buildQueryAttempts rt opts = Inr as"
  obtains (accepted) k where "indexBelow k (maxAttemptsOf opts as)"
      "acceptable (minResultsOf opts)
         (attemptDocs fmt net (clientSideFilter opts) (limitOf opts) as k)"
      "\<forall>j<k. \<not> acceptable (minResultsOf opts)
                  (attemptDocs fmt net (clientSideFilter opts) (limitOf opts) as j)"
    | (exhausted) "\<forall>j. indexBelow j (maxAttemptsOf opts as) \<longrightarrow> \<not> acceptable (minResultsOf opts)
                  (attemptDocs fmt net (clientSideFilter opts) (limitOf opts) as j)"
proof (cases "\<exists>k. indexBelow k (maxAttemptsOf opts as) \<and> acceptable (minResultsOf opts)
                  (attemptDocs fmt net (clientSideFilter opts) (limitOf opts) as k)")
  case True
  let ?P = "\<lambda>k. indexBelow k (maxAttemptsOf opts as) \<and> acceptable (minResultsOf opts)
                  (attemptDocs fmt net (clientSideFilter opts) (limitOf opts) as k)"
  from True obtain k where k: "?P k" "\<forall>j<k. \<not> ?P j"
    using exists_least_iff[of ?P] by blast
  have "\<forall>j<k. \<not> acceptable (minResultsOf opts)
                  (attemptDocs fmt net (clientSideFilter opts) (limitOf opts) as j)"
  proof (intro allI impI)
    fix j assume "j < k"
    with k(1) have "indexBelow j (maxAttemptsOf opts as)"
      using indexBelow_mono[of k "maxAttemptsOf opts as" j] by simp
    with k(2) \<open>j < k\<close> show "\<not> acceptable (minResultsOf opts)
                  (attemptDocs fmt net (clientSideFilter opts) (limitOf opts) as j)" by blast
  qed
  with k(1) show ?thesis by (blast intro: accepted)
next
  case False
  then show ?thesis by (blast intro: exhausted)
qed

lemma run_returns:
  fixes net :: "'d Network"
  assumes plan: "buildQueryAttempts rt opts = Inr as"
  shows "\<exists>out n. fst (runSmartSearch fmt net rt opts) = Inr out
           \<and> n \<le> attemptsRun (maxAttemptsOf opts as) (length as)
           \<and> requests (snd (runSmartSearch fmt net rt opts))
               = map (attemptUrl fmt (limitOf opts) as) [0..<n]"
proof (rule run_cases[OF plan, of fmt net])
  fix k
  assume k: "indexBelow k (maxAttemptsOf opts as)"
    and acc: "acceptable (minResultsOf opts)
                (attemptDocs fmt net (clientSideFilter opts) (limitOf opts) as k)"
    and first: "\<forall>j<k. \<not> acceptable (minResultsOf opts)
                  (attemptDocs fmt net (clientSideFilter opts) (limitOf opts) as j)"
  from acc obtain ds where
    ds: "attemptDocs fmt net (clientSideFilter opts) (limitOf opts) as k = Some ds"
       "lengthReaches (length ds) (minResultsOf opts)"
    by (auto simp: acceptable_def split: option.splits)
  from k have "Suc k \<le> attemptsRun (maxAttemptsOf opts as) (length as)"
    by (simp add: maxAttempts_run)
  with run_accept[OF plan k ds first] show ?thesis by blast
next
  assume "\<forall>j. indexBelow j (maxAttemptsOf opts as) \<longrightarrow> \<not> acceptable (minResultsOf opts)
                  (attemptDocs fmt net (clientSideFilter opts) (limitOf opts) as j)"
  from run_fallback[OF plan this] show ?thesis by blast
qed

section \<open>The retriever\<close>

subsection \<open>The number of attempts the loop runs\<close>

lemma nat_eq_by_less: "(\<forall>i. i < a \<longleftrightarrow> i < b) \<Longrightarrow> a = b" for a b :: nat
  by (metis linorder_neqE_nat less_irrefl)

lemma attemptsRun_ceiling: "attemptsRun (Num r) len = min (nat \<lceil>r\<rceil>) len"
proof (rule nat_eq_by_less, rule allI)
  fix i
  have "real i < r \<longleftrightarrow> int i < \<lceil>r\<rceil>" by (simp add: less_ceiling_iff)
  also have "\<dots> \<longleftrightarrow> i < nat \<lceil>r\<rceil>" by linarith
  finally show "i < attemptsRun (Num r) len \<longleftrightarrow> i < min (nat \<lceil>r\<rceil>) len"
    by (auto simp: attemptsRun_iff)
qed

lemma attemptsRun_nat: "attemptsRun (Num (real c)) len = min c len"
  by (simp add: attemptsRun_ceiling)

lemma attemptsRun_none:
  "attemptsRun NaN len = 0" "attemptsRun MinusInfinity len = 0"
  by (simp_all add: attemptsRun_def)

lemma attemptsRun_all: "attemptsRun PlusInfinity len = len"
  by (simp add: attemptsRun_def)

lemma attemptsRun_min:
  "attemptsRun (mathMin m (Num (real len))) len = attemptsRun m len"
  by (rule nat_eq_by_less) (auto simp: attemptsRun_iff indexBelow_min)

lemma maxAttemptsOf_count:
  "attemptsRun (maxAttemptsOf opts as) (length as) =
     (case maxAttempts opts of
        None \<Rightarrow> length as
      | Some m \<Rightarrow> attemptsRun m (length as))"
  by (cases "maxAttempts opts") (simp_all add: maxAttemptsOf_def attemptsRun_min attemptsRun_nat)

subsection \<open>The example runs\<close>

lemma plan_ignores_filter:
  "buildQueryAttempts rt (opts\<lparr>clientSideFilter := f\<rparr>) = buildQueryAttempts rt opts"
  by (cases "RESOURCE_MAP rt") (simp_all add: buildQueryAttempts_def)

lemma plan_ignores_maxAttempts:
  "buildQueryAttempts rt (opts\<lparr>maxAttempts := m\<rparr>) = buildQueryAttempts rt opts"
  by (cases "RESOURCE_MAP rt") (simp_all add: buildQueryAttempts_def)

lemma science_plan: "buildQueryAttempts (js ''study_guide'') scienceOptions = Inr studyGuideSciencePlan"
  unfolding scienceOptions_def by (rule studyGuide_science_plan)

lemma fullText_plan: "buildQueryAttempts (js ''study_guide'') fullTextOptions = Inr studyGuideSciencePlan"
  unfolding fullTextOptions_def plan_ignores_filter by (rule science_plan)


lemma fractional_plan:
  "buildQueryAttempts (js ''study_guide'') fractionalOptions = Inr studyGuideSciencePlan"
  unfolding fractionalOptions_def plan_ignores_maxAttempts by (rule science_plan)

lemma plan_size: "length studyGuideSciencePlan = 6"
  by (simp add: studyGuideSciencePlan_def)

lemma science_consts:
  "limitOf scienceOptions = Num 20" "minResultsOf scienceOptions = Num 6"
  "maxAttemptsOf scienceOptions studyGuideSciencePlan = Num 6"
  "clientSideFilter scienceOptions = None"
  by (simp_all add: limitOf_def minResultsOf_def maxAttemptsOf_def scienceOptions_def
        noOptions_def plan_size)

lemma fullText_consts:
  "limitOf fullTextOptions = Num 20" "minResultsOf fullTextOptions = Num 6"
  "maxAttemptsOf fullTextOptions studyGuideSciencePlan = Num 6"
  "clientSideFilter fullTextOptions = Some (\<lambda>d. 0 < d)"
  by (simp_all add: limitOf_def minResultsOf_def maxAttemptsOf_def fullTextOptions_def
        scienceOptions_def noOptions_def plan_size)


lemma fractional_consts:
  "limitOf fractionalOptions = Num 20" "minResultsOf fractionalOptions = Num 6"
  "maxAttemptsOf fractionalOptions studyGuideSciencePlan = Num (5 / 2)"
  "clientSideFilter fractionalOptions = None"
  by (simp_all add: limitOf_def minResultsOf_def maxAttemptsOf_def fractionalOptions_def
        scienceOptions_def noOptions_def plan_size)



lemma fractional_run: "attemptsRun (Num (5 / 2)) 6 = 3"
proof -
  have "\<lceil>5 / 2 :: real\<rceil> = 3" by (simp add: ceiling_eq_iff)
  then show ?thesis by (simp add: attemptsRun_ceiling)
qed

lemma fullText_docs:
  "attemptDocs fmt fullTextNetwork (Some (\<lambda>d. 0 < d)) lmt as 0 = Some [1, 1, 1, 1]"
  "attemptDocs fmt fullTextNetwork (Some (\<lambda>d. 0 < d)) lmt as (Suc 0)
     = Some [1, 1, 1, 1, 1, 1, 1, 1, 1, 1]"
  by (simp_all add: attemptDocs_def fullTextNetwork_def tryDocs_def)


lemma empty_docs: "attemptDocs fmt emptyNetwork None lmt as j = Some []"
  by (simp add: attemptDocs_def emptyNetwork_def tryDocs_def)

lemma rejecting_docs: "attemptDocs fmt rejectingNetwork flt lmt as j = None"
  by (simp add: attemptDocs_def rejectingNetwork_def tryDocs_def)

subsection \<open>Acceptance\<close>

text \<open>
  C1. Let attempt \<open>k\<close> (counted from 1) be one the loop runs, as every \<open>k\<close> up to
  min(maxAttempts, plan length) is, and the first whose answer, after \<open>clientSideFilter\<close>,
  has at least \<open>minResults\<close> documents (6 when not given). Then \<open>runSmartSearch\<close> returns
  exactly these filtered documents, \<open>attempt = k\<close>, the description of that attempt and its
  request URL, and the requests it has issued are those of attempts 1 to \<open>k\<close>, one each, and
  none for a later attempt. The count compared with the threshold is the one after
  filtering: in the witness the first answer has 8 documents, 4 of which pass the filter,
  and is not accepted.
\<close>

theorem first_acceptable_attempt:
  fixes net :: "'d Network"
  assumes "buildQueryAttempts rt opts = Inr as"
    and "1 \<le> k" and "indexBelow (k - 1) (maxAttemptsOf opts as)"
    and "attemptDocs fmt net (clientSideFilter opts) (limitOf opts) as (k - 1) = Some ds"
    and "lengthReaches (length ds) (minResultsOf opts)"
    and "\<forall>j<k - 1. \<not> acceptable (minResultsOf opts)
                  (attemptDocs fmt net (clientSideFilter opts) (limitOf opts) as j)"
  shows "requestUrl fmt (limitOf opts) (as ! (k - 1))
           = Inr (attemptUrl fmt (limitOf opts) as (k - 1))
         \<and> fst (runSmartSearch fmt net rt opts) =
            Inr \<lparr>docs = ds, attempt = Num (real k), description = a_description (as ! (k - 1)),
                 url = Some (attemptUrl fmt (limitOf opts) as (k - 1))\<rparr>
         \<and> requests (snd (runSmartSearch fmt net rt opts))
             = map (attemptUrl fmt (limitOf opts) as) [0..<k]"
proof -
  from assms(2) have k: "Suc (k - 1) = k" "real (k - 1) + 1 = real k"
    by (simp_all add: of_nat_diff)
  from assms(3) have "k - 1 < length as"
    using maxAttempts_run[of "k - 1" opts as]
      attemptsRun_iff[of "k - 1" "maxAttemptsOf opts as" "length as"] by blast
  from attemptUrl_ok[OF plan_urls[OF assms(1)] this]
  have "requestUrl fmt (limitOf opts) (as ! (k - 1))
          = Inr (attemptUrl fmt (limitOf opts) as (k - 1))" .
  with run_accept[OF assms(1) assms(3,4,5,6)] k show ?thesis by simp
qed

theorem first_acceptable_attempt_witness:
  "buildQueryAttempts (js ''study_guide'') fullTextOptions = Inr studyGuideSciencePlan
   \<and> (1::nat) \<le> 2
   \<and> indexBelow (2 - 1) (maxAttemptsOf fullTextOptions studyGuideSciencePlan)
   \<and> attemptDocs noFormat fullTextNetwork (clientSideFilter fullTextOptions)
        (limitOf fullTextOptions) studyGuideSciencePlan 0 = Some [1, 1, 1, 1]
   \<and> \<not> acceptable (minResultsOf fullTextOptions) (Some [1, 1, 1, 1 :: nat])
   \<and> attemptDocs noFormat fullTextNetwork (clientSideFilter fullTextOptions)
        (limitOf fullTextOptions) studyGuideSciencePlan 1 = Some [1, 1, 1, 1, 1, 1, 1, 1, 1, 1]
   \<and> lengthReaches (length [1, 1, 1, 1, 1, 1, 1, 1, 1, 1 :: nat]) (minResultsOf fullTextOptions)
   \<and> fst (runSmartSearch noFormat fullTextNetwork (js ''study_guide'') fullTextOptions) =
        Inr \<lparr>docs = [1, 1, 1, 1, 1, 1, 1, 1, 1, 1], attempt = Num 2,
             description = js ''subject:study guides'',
             url = Some (attemptUrl noFormat (Num 20) studyGuideSciencePlan 1)\<rparr>
   \<and> requests (snd (runSmartSearch noFormat fullTextNetwork (js ''study_guide'') fullTextOptions))
        = [attemptUrl noFormat (Num 20) studyGuideSciencePlan 0,
           attemptUrl noFormat (Num 20) studyGuideSciencePlan 1]"
proof -
  have two: "[0..<2] = [0, Suc 0]" by (simp add: upt_rec)
  have d: "a_description (studyGuideSciencePlan ! Suc 0) = js ''subject:study guides''"
    by (simp add: studyGuideSciencePlan_def)
  from first_acceptable_attempt[where rt = "js ''study_guide''" and opts = fullTextOptions
      and as = studyGuideSciencePlan and k = 2 and fmt = noFormat and net = fullTextNetwork
      and ds = "[1, 1, 1, 1, 1, 1, 1, 1, 1, 1]"]
  show ?thesis
    by (simp add: fullText_plan fullText_consts fullText_docs acceptable_def two d)
qed

subsection \<open>Fallback\<close>




subsection \<open>The number of requests\<close>

text \<open>
  C5 (as amended). Every invocation issues at most as many requests as there are indices
  \<open>i\<close> of the plan that pass the loop test \<open>i < Math.min(maxAttempts ?? plan length, plan
  length)\<close>. This number is never more than the plan length: it is the plan length for an
  absent \<open>maxAttempts\<close>, min(maxAttempts, plan length) for a non-negative integer, the same
  with \<open>maxAttempts\<close> rounded up for a fraction, and zero for a negative number or \<open>NaN\<close>.
  The requests are the URLs of the first \<open>n\<close> attempts in order, one for each executed
  attempt; when no plan is built there is no request at all.
\<close>

theorem request_bound:
  fixes net :: "'d Network"
  shows "(case buildQueryAttempts rt opts of
            Inl e \<Rightarrow> requests (snd (runSmartSearch fmt net rt opts)) = []
          | Inr as \<Rightarrow>
              length (requests (snd (runSmartSearch fmt net rt opts)))
                \<le> attemptsRun (maxAttemptsOf opts as) (length as)
              \<and> attemptsRun (maxAttemptsOf opts as) (length as) \<le> length as
              \<and> attemptsRun (maxAttemptsOf opts as) (length as) =
                  (case maxAttempts opts of
                     None \<Rightarrow> length as
                   | Some (Num r) \<Rightarrow> min (nat \<lceil>r\<rceil>) (length as)
                   | Some NaN \<Rightarrow> 0
                   | Some PlusInfinity \<Rightarrow> length as
                   | Some MinusInfinity \<Rightarrow> 0)
              \<and> (\<exists>n. requests (snd (runSmartSearch fmt net rt opts))
                        = map (attemptUrl fmt (limitOf opts) as) [0..<n]))"
proof (cases "buildQueryAttempts rt opts")
  case (Inl e)
  then show ?thesis by (simp add: runSmartSearch_no_plan)
next
  case (Inr as)
  from run_returns[OF Inr, of fmt net] obtain n where
    n: "n \<le> attemptsRun (maxAttemptsOf opts as) (length as)"
    "requests (snd (runSmartSearch fmt net rt opts))
       = map (attemptUrl fmt (limitOf opts) as) [0..<n]"
    by blast
  from n have len: "length (requests (snd (runSmartSearch fmt net rt opts)))
                 \<le> attemptsRun (maxAttemptsOf opts as) (length as)"
    by simp
  have count: "attemptsRun (maxAttemptsOf opts as) (length as) =
                  (case maxAttempts opts of
                     None \<Rightarrow> length as
                   | Some (Num r) \<Rightarrow> min (nat \<lceil>r\<rceil>) (length as)
                   | Some NaN \<Rightarrow> 0
                   | Some PlusInfinity \<Rightarrow> length as
                   | Some MinusInfinity \<Rightarrow> 0)"
    unfolding maxAttemptsOf_count
    by (simp add: attemptsRun_ceiling attemptsRun_none attemptsRun_all
          split: option.splits number.splits)
  from len count n(2) attemptsRun_le[of "maxAttemptsOf opts as" "length as"] Inr
  show ?thesis by auto
qed

theorem request_bound_witness:
  "buildQueryAttempts (js ''study_guide'') (scienceOptions\<lparr>maxAttempts := Some (Num 9)\<rparr>)
     = Inr studyGuideSciencePlan
   \<and> length (requests (snd (runSmartSearch noFormat emptyNetwork (js ''study_guide'')
                 (scienceOptions\<lparr>maxAttempts := Some (Num 9)\<rparr>)))) \<le> 6"
proof -
  have p: "buildQueryAttempts (js ''study_guide'') (scienceOptions\<lparr>maxAttempts := Some (Num 9)\<rparr>)
     = Inr studyGuideSciencePlan"
    unfolding plan_ignores_maxAttempts by (rule science_plan)
  from request_bound[where rt = "js ''study_guide''" and fmt = noFormat and net = emptyNetwork
      and opts = "scienceOptions\<lparr>maxAttempts := Some (Num 9)\<rparr>"]
  show ?thesis by (simp add: p plan_size)
qed

theorem request_bound_counterexample:
  "buildQueryAttempts (js ''study_guide'') fractionalOptions = Inr studyGuideSciencePlan
   \<and> maxAttemptsOf fractionalOptions studyGuideSciencePlan = Num (5 / 2)
   \<and> length (requests (snd (runSmartSearch noFormat emptyNetwork (js ''study_guide'')
                 fractionalOptions))) = 3
   \<and> (5 / 2 :: real) < real (length (requests (snd (runSmartSearch noFormat emptyNetwork
                                   (js ''study_guide'') fractionalOptions))))"
proof -
  have "\<forall>j. indexBelow j (maxAttemptsOf fractionalOptions studyGuideSciencePlan) \<longrightarrow>
          \<not> acceptable (minResultsOf fractionalOptions)
              (attemptDocs noFormat emptyNetwork (clientSideFilter fractionalOptions)
                 (limitOf fractionalOptions) studyGuideSciencePlan j)"
    by (simp add: fractional_consts empty_docs acceptable_def)
  from run_fallback[OF fractional_plan this] show ?thesis
    by (simp add: fractional_plan fractional_consts plan_size fractional_run)
qed

subsection \<open>More evaluation\<close>

lemmas url_defs = requestUrl_def hexValue_def leadingOnes_def utf16Encode_def removePrefix_def
  appendParam_def numberToString_def paramsToString_def formEncode_def formOctet_def
  isLowSurrogate_def isHighSurrogate_def utf8Encode_def isAlnum_def escapeOctet_def hexDigit_def
  js_def

lemma decimal_20: "decimal 20 = [50, 48]"
  by (simp add: decimal.simps[of 20] decimal.simps[of 2])

lemma plus_combined: "combinedAttempt (js ''study guides'') (js ''c++'') = Inr plusAttempt"
  by (simp add: eval_defs plusAttempt_def)

lemma plus_url:
  "requestUrl fmt (Num 20) plusAttempt =
     Inr (js ''https://openlibrary.org/search.json?subject=study+guides&subject=c&subject=&subject=&limit=20'')"
  by (simp add: url_defs plusAttempt_def decimal_20)


lemma plus_plan: "buildQueryAttempts (js ''study_guide'') plusOptions = Inr plusPlan"
  by (simp add: eval_defs plusOptions_def noOptions_def plusPlan_def plusAttempt_def)

lemma plus_consts:
  "limitOf plusOptions = Num 20" "minResultsOf plusOptions = Num 6"
  "maxAttemptsOf plusOptions plusPlan = Num 1" "clientSideFilter plusOptions = None"
  by (simp_all add: limitOf_def minResultsOf_def maxAttemptsOf_def plusOptions_def
        noOptions_def plusPlan_def)

lemma lone_surrogate_plan:
  "buildQueryAttempts (js ''study_guide'') (noOptions\<lparr>subjectSlug := Some [55296]\<rparr>)
     = Inl URIError"
  by (simp add: eval_defs noOptions_def)

lemma lone_surrogate_ill: "\<not> wellFormedSubject (noOptions\<lparr>subjectSlug := Some [55296]\<rparr>)"
  by (simp add: wellFormedSubject_def noOptions_def trim_def isWhiteSpace_def
        isLowSurrogate_def isHighSurrogate_def)

lemma science_wellFormed: "wellFormedSubject scienceOptions"
  by (simp add: wellFormedSubject_def scienceOptions_def trim_science noSurrogate_wellFormed
        noSurrogate_js)

lemma unknown_entry: "RESOURCE_MAP (js ''past_paper'') = None"
  by (simp add: RESOURCE_MAP_def RESOURCE_TABLE_def js_def)

subsection \<open>Errors\<close>

text \<open>
  C6 (as amended). A category with no entry in \<open>RESOURCE_MAP\<close> makes the call fail with
  the \<open>TypeError\<close> of reading \<open>map.slugs\<close>, raised by \<open>buildQueryAttempts\<close> before any
  request. The only other error is the \<open>URIError\<close> of \<open>encodeURIComponent\<close>, raised by
  \<open>buildQueryAttempts\<close> too and before any request, when the trimmed subject has an
  unpaired surrogate. In every other case the call returns an outcome.
\<close>

theorem plan_errors_only:
  fixes net :: "'d Network"
  shows "(RESOURCE_MAP rt = None \<longrightarrow> runSmartSearch fmt net rt opts = (Inl TypeError, []))
       \<and> (RESOURCE_MAP rt \<noteq> None \<and> \<not> wellFormedSubject opts
            \<longrightarrow> runSmartSearch fmt net rt opts = (Inl URIError, []))
       \<and> (RESOURCE_MAP rt \<noteq> None \<and> wellFormedSubject opts
            \<longrightarrow> (\<exists>out. fst (runSmartSearch fmt net rt opts) = Inr out))"
proof (intro conjI impI)
  assume "RESOURCE_MAP rt = None"
  from build_unknown[OF this] show "runSmartSearch fmt net rt opts = (Inl TypeError, [])"
    by (rule runSmartSearch_no_plan)
next
  assume a: "RESOURCE_MAP rt \<noteq> None \<and> \<not> wellFormedSubject opts"
  then obtain m where m: "RESOURCE_MAP rt = Some m" by auto
  from a obtain s where "map_option trim (subjectSlug opts) = Some s" "\<not> isWellFormed s"
    by (auto simp: wellFormedSubject_iff)
  from plan_ill[OF m this] show "runSmartSearch fmt net rt opts = (Inl URIError, [])"
    by (rule runSmartSearch_no_plan)
next
  assume a: "RESOURCE_MAP rt \<noteq> None \<and> wellFormedSubject opts"
  then obtain m where m: "RESOURCE_MAP rt = Some m" by auto
  from a have "\<forall>s. map_option trim (subjectSlug opts) = Some s \<longrightarrow> isWellFormed s"
    using wellFormedSubject_iff[of opts] by blast
  from plan_ok[OF m this] obtain as where "buildQueryAttempts rt opts = Inr as" by blast
  from run_returns[OF this, of fmt net] show "\<exists>out. fst (runSmartSearch fmt net rt opts) = Inr out"
    by blast
qed

theorem plan_errors_only_witness:
  "RESOURCE_MAP (js ''past_paper'') = None
   \<and> runSmartSearch noFormat rejectingNetwork (js ''past_paper'') noOptions = (Inl TypeError, [])
   \<and> RESOURCE_MAP (js ''study_guide'') = Some studyGuide
   \<and> \<not> wellFormedSubject (noOptions\<lparr>subjectSlug := Some [55296]\<rparr>)
   \<and> runSmartSearch noFormat rejectingNetwork (js ''study_guide'')
        (noOptions\<lparr>subjectSlug := Some [55296]\<rparr>) = (Inl URIError, [])
   \<and> wellFormedSubject scienceOptions
   \<and> (\<exists>out. fst (runSmartSearch noFormat rejectingNetwork (js ''study_guide'') scienceOptions) = Inr out)"
  using plan_errors_only[where rt = "js ''past_paper''" and fmt = noFormat
        and net = rejectingNetwork and opts = noOptions]
    plan_errors_only[where rt = "js ''study_guide''" and fmt = noFormat
        and net = rejectingNetwork and opts = "noOptions\<lparr>subjectSlug := Some [55296]\<rparr>"]
    plan_errors_only[where rt = "js ''study_guide''" and fmt = noFormat
        and net = rejectingNetwork and opts = scienceOptions]
  by (simp add: unknown_entry studyGuide_entry lone_surrogate_ill science_wellFormed)

theorem unknown_category_counterexample:
  "RESOURCE_MAP (js ''study_guide'') = Some studyGuide
   \<and> runSmartSearch noFormat rejectingNetwork (js ''study_guide'')
        (noOptions\<lparr>subjectSlug := Some [55296]\<rparr>) = (Inl URIError, [])"
  using runSmartSearch_no_plan[OF lone_surrogate_plan, of noFormat rejectingNetwork]
    studyGuide_entry
  by simp

text \<open>
  C7. Let the request of attempt \<open>j + 1\<close> be reached and fail: the promise rejects, the
  status is not ok, or the body does not parse. Then the call still returns an outcome and
  never an error; the attempt was requested once, after the earlier ones; when another
  attempt is allowed the request that follows is that of the next attempt; when it was the
  last one allowed the outcome is the fallback with an empty document list.
\<close>

theorem failed_attempt_absorbed:
  fixes net :: "'d Network"
  assumes "buildQueryAttempts rt opts = Inr as"
    and "indexBelow j (maxAttemptsOf opts as)"
    and "\<forall>i<j. \<not> acceptable (minResultsOf opts)
                  (attemptDocs fmt net (clientSideFilter opts) (limitOf opts) as i)"
    and "failedResponse (net j (attemptUrl fmt (limitOf opts) as j))"
  shows "(\<exists>out. fst (runSmartSearch fmt net rt opts) = Inr out
            \<and> (\<not> indexBelow (Suc j) (maxAttemptsOf opts as) \<longrightarrow>
                 out = \<lparr>docs = [], attempt = maxAttemptsOf opts as,
                        description = js ''fallback'', url = None\<rparr>))
         \<and> take (Suc j) (requests (snd (runSmartSearch fmt net rt opts)))
             = map (attemptUrl fmt (limitOf opts) as) [0..<Suc j]
         \<and> (indexBelow (Suc j) (maxAttemptsOf opts as) \<longrightarrow>
               Suc j < length (requests (snd (runSmartSearch fmt net rt opts)))
               \<and> requests (snd (runSmartSearch fmt net rt opts)) ! Suc j
                   = attemptUrl fmt (limitOf opts) as (Suc j))"
proof -
  let ?acc = "\<lambda>i. acceptable (minResultsOf opts)
                  (attemptDocs fmt net (clientSideFilter opts) (limitOf opts) as i)"
  let ?url = "attemptUrl fmt (limitOf opts) as"
  let ?reqs = "requests (snd (runSmartSearch fmt net rt opts))"
  let ?n = "attemptsRun (maxAttemptsOf opts as) (length as)"
  from failed_no_docs[OF assms(4)] have
    none: "attemptDocs fmt net (clientSideFilter opts) (limitOf opts) as j = None"
    by (simp add: attemptDocs_def)
  then have nj: "\<not> ?acc j" by (simp add: acceptable_def)
  from assms(2) have jn: "j < ?n" by (simp add: maxAttempts_run)
  show ?thesis
  proof (rule run_cases[OF assms(1), of fmt net])
    fix k
    assume k: "indexBelow k (maxAttemptsOf opts as)" and acc: "?acc k"
      and first: "\<forall>i<k. \<not> ?acc i"
    from acc nj assms(3) have jk: "j < k" by (metis linorder_neqE_nat)
    from acc obtain ds where
      ds: "attemptDocs fmt net (clientSideFilter opts) (limitOf opts) as k = Some ds"
         "lengthReaches (length ds) (minResultsOf opts)"
      by (auto simp: acceptable_def split: option.splits)
    from run_accept[OF assms(1) k ds first] have
      out: "\<exists>out. fst (runSmartSearch fmt net rt opts) = Inr out"
      and reqs: "?reqs = map ?url [0..<Suc k]" by simp_all
    from jk k have notlast: "indexBelow (Suc j) (maxAttemptsOf opts as)"
      using indexBelow_mono[of k "maxAttemptsOf opts as" "Suc j"] by simp
    from jk have "take (Suc j) [0..<Suc k] = [0..<Suc j]" by (simp add: take_upt)
    then have tk: "take (Suc j) ?reqs = map ?url [0..<Suc j]"
      unfolding reqs take_map by simp
    from jk have "Suc j < length ?reqs" "?reqs ! Suc j = ?url (Suc j)"
      unfolding reqs by (simp_all del: upt_Suc)
    with out notlast tk show ?thesis by blast
  next
    assume ex: "\<forall>i. indexBelow i (maxAttemptsOf opts as) \<longrightarrow> \<not> ?acc i"
    from run_fallback[OF assms(1) ex] have
      out: "fst (runSmartSearch fmt net rt opts) =
            Inr \<lparr>docs = (if 0 < ?n
                          then lastSeen (attemptDocs fmt net (clientSideFilter opts) (limitOf opts)
                                   as (?n - 1))
                          else []),
                 attempt = maxAttemptsOf opts as, description = js ''fallback'', url = None\<rparr>"
      and reqs: "?reqs = map ?url [0..<?n]" by simp_all
    have last: "\<not> indexBelow (Suc j) (maxAttemptsOf opts as) \<longrightarrow>
                 (if 0 < ?n
                  then lastSeen (attemptDocs fmt net (clientSideFilter opts) (limitOf opts)
                         as (?n - 1))
                  else []) = []"
    proof
      assume "\<not> indexBelow (Suc j) (maxAttemptsOf opts as)"
      then have "\<not> Suc j < ?n" by (simp add: maxAttempts_run)
      with jn have "?n - 1 = j" by linarith
      with none show "(if 0 < ?n
                  then lastSeen (attemptDocs fmt net (clientSideFilter opts) (limitOf opts)
                         as (?n - 1))
                  else []) = []" by (simp add: lastSeen_def)
    qed
    from jn have "take (Suc j) [0..<?n] = [0..<Suc j]"
      by (simp add: take_upt)
    then have tk: "take (Suc j) ?reqs = map ?url [0..<Suc j]"
      unfolding reqs take_map by simp
    have nxt: "indexBelow (Suc j) (maxAttemptsOf opts as) \<longrightarrow>
               Suc j < length ?reqs \<and> ?reqs ! Suc j = ?url (Suc j)"
    proof
      assume "indexBelow (Suc j) (maxAttemptsOf opts as)"
      then have "Suc j < ?n" by (simp add: maxAttempts_run)
      then show "Suc j < length ?reqs \<and> ?reqs ! Suc j = ?url (Suc j)"
        unfolding reqs by simp
    qed
    from out last tk nxt show ?thesis by simp
  qed
qed

theorem failed_attempt_absorbed_witness:
  "buildQueryAttempts (js ''study_guide'') scienceOptions = Inr studyGuideSciencePlan
   \<and> indexBelow 0 (maxAttemptsOf scienceOptions studyGuideSciencePlan)
   \<and> failedResponse
        (rejectingNetwork 0 (attemptUrl noFormat (limitOf scienceOptions) studyGuideSciencePlan 0))
   \<and> (\<exists>out. fst (runSmartSearch noFormat rejectingNetwork (js ''study_guide'') scienceOptions)
               = Inr out)
   \<and> take 1 (requests (snd (runSmartSearch noFormat rejectingNetwork (js ''study_guide'')
                 scienceOptions)))
        = [attemptUrl noFormat (Num 20) studyGuideSciencePlan 0]
   \<and> 1 < length (requests (snd (runSmartSearch noFormat rejectingNetwork (js ''study_guide'')
                 scienceOptions)))
   \<and> requests (snd (runSmartSearch noFormat rejectingNetwork (js ''study_guide'')
                 scienceOptions)) ! 1
        = attemptUrl noFormat (Num 20) studyGuideSciencePlan 1"
proof -
  have f: "failedResponse (rejectingNetwork 0 u)" for u
    by (simp add: failedResponse_def rejectingNetwork_def)
  from failed_attempt_absorbed[OF science_plan, where j = 0 and fmt = noFormat
      and net = rejectingNetwork] f
  show ?thesis
    by (simp add: science_plan science_consts)
qed

subsection \<open>The request URLs\<close>

lemma split_no_separator: "sep \<notin> set p \<Longrightarrow> split sep p = [p]"
  by (induction p) auto

lemma split_at_separator: "sep \<notin> set p \<Longrightarrow> split sep (p @ sep # r) = p # split sep r"
  by (induction p) auto

lemma removePrefix_append: "removePrefix pre (pre @ x) = x"
  by (simp add: removePrefix_def)

lemma subject_no_plus: "43 \<notin> set (js ''subject:'')"
  by (simp add: js_def)

lemma limit_not_subject: "js ''subject'' \<noteq> js ''limit''" "js ''q'' \<noteq> js ''limit''"
  by (simp_all add: js_def)

text \<open>Without a plus sign in the slug and in the subject, a subject-filter attempt has
  one \<open>subject\<close> parameter for each constraint, holding the string as it was given; no slug
  of the table has a plus sign. A keyword attempt has the single parameter \<open>q\<close>. Both have
  the limit.\<close>

lemma combined_url:
  assumes "combinedAttempt slug s = Inr a" "43 \<notin> set slug" "43 \<notin> set s"
  shows "requestUrl fmt lmt a =
           Inr (js ''https://openlibrary.org/search.json?'' @
                paramsToString [(js ''subject'', slug), (js ''subject'', s),
                                (js ''limit'', numberToString fmt lmt)])"
proof -
  from combinedAttempt_decoded[OF assms(1)] have
    a: "a_type a = Subject"
       "decodeURIComponent (a_q a) = Inr (js ''subject:'' @ slug @ js ''+subject:'' @ s)"
    by simp_all
  have "js ''+subject:'' = 43 # js ''subject:''" by (simp add: js_def)
  then have "split 43 (js ''subject:'' @ slug @ js ''+subject:'' @ s)
               = [js ''subject:'' @ slug, js ''subject:'' @ s]"
    using split_at_separator[of 43 "js ''subject:'' @ slug" "js ''subject:'' @ s"]
      split_no_separator[of 43 "js ''subject:'' @ s"] assms(2,3) subject_no_plus
    by simp
  with a show ?thesis
    by (simp add: requestUrl_def removePrefix_append appendParam_def limit_not_subject)
qed

lemma slug_url:
  assumes "slugAttempt slug = Inr a" "43 \<notin> set slug"
  shows "requestUrl fmt lmt a =
           Inr (js ''https://openlibrary.org/search.json?'' @
                paramsToString [(js ''subject'', slug), (js ''limit'', numberToString fmt lmt)])"
proof -
  from slugAttempt_decoded[OF assms(1)] have
    a: "a_type a = Subject" "decodeURIComponent (a_q a) = Inr (js ''subject:'' @ slug)"
    by simp_all
  have "split 43 (js ''subject:'' @ slug) = [js ''subject:'' @ slug]"
    using split_no_separator[of 43 "js ''subject:'' @ slug"] assms(2) subject_no_plus by simp
  with a show ?thesis
    by (simp add: requestUrl_def removePrefix_append appendParam_def limit_not_subject)
qed

lemma keyword_url:
  assumes "a_type a = Keyword" "encodeURIComponent x = Inr (a_q a)"
  shows "requestUrl fmt lmt a =
           Inr (js ''https://openlibrary.org/search.json?'' @
                paramsToString [(js ''q'', x), (js ''limit'', numberToString fmt lmt)])"
  using assms decode_encoded[OF assms(2)]
  by (simp add: requestUrl_def limit_not_subject)

lemma table_slugs_no_plus:
  assumes "RESOURCE_MAP rt = Some m"
  shows "\<forall>slug\<in>set (slugs m). 43 \<notin> set slug"
proof -
  have "(rt, m) \<in> set RESOURCE_TABLE"
    using assms unfolding RESOURCE_MAP_def by (rule map_of_SomeD)
  then show ?thesis
    unfolding RESOURCE_TABLE_def by (auto simp: js_def)
qed

subsection \<open>The request URL of a subject with a plus sign\<close>

text \<open>
  C8, at the subject \<open>c++\<close>: the first attempt holds \<open>subject:study%20guides+subject:c%2B%2B\<close>;
  \<open>runSmartSearch\<close> decodes the whole string before it splits at \<open>+\<close>, so the request has
  four \<open>subject\<close> parameters, \<open>study guides\<close>, \<open>c\<close> and two empty ones, instead of the
  two subject constraints.
\<close>

theorem plus_subject_request:
  "runSmartSearch fmt emptyNetwork (js ''study_guide'') plusOptions =
     (Inr \<lparr>docs = [], attempt = Num 1, description = js ''fallback'', url = None\<rparr>,
      [Fetch (js (''https://openlibrary.org/search.json?'' @
                  ''subject=study+guides&subject=c&subject=&subject=&limit=20'')),
       Sleep 120])"
proof -
  let ?u = "js ''https://openlibrary.org/search.json?subject=study+guides&subject=c&subject=&subject=&limit=20''"
  have u: "requestUrl fmt (Num 20) (plusPlan ! 0) = Inr ?u"
    using plus_url by (simp add: plusPlan_def)
  have "searchLoop fmt emptyNetwork None plusPlan (Num 20) (Num 6) (Num 1) 0 [] [] =
          searchLoop fmt emptyNetwork None plusPlan (Num 20) (Num 6) (Num 1) (Suc 0) []
            [Fetch ?u, Sleep 120]"
    using searchLoop_run[where i = 0 and maxAtt = "Num 1" and as = plusPlan and fmt = fmt
        and lmt = "Num 20" and u = ?u and tr = "[]" and net = emptyNetwork and flt = None
        and minRes = "Num 6" and lastR = "[]"] u
    by (simp add: plusPlan_def emptyNetwork_def tryDocs_def)
  also have "\<dots> = (Inr \<lparr>docs = [], attempt = Num 1, description = js ''fallback'', url = None\<rparr>,
                     [Fetch ?u, Sleep 120])"
    by (simp add: searchLoop_stop)
  finally show ?thesis
    by (simp add: runSmartSearch_plan[OF plus_plan] plus_consts)
qed

end
